theory Spec2Isabelle
  imports Main
begin

section \<open>Node editing in the node modal: data model\<close>

text \<open>
  The development embeds \<^verbatim>\<open>src/features/modals/NodeModal/index.tsx\<close>: the functions
  \<^verbatim>\<open>normalizeNodeData\<close>, \<^verbatim>\<open>jsonPathToString\<close>, \<^verbatim>\<open>setValueAtPath\<close> and \<^verbatim>\<open>handleSave\<close>.

  Values are JSON values. Numbers are the integers (a JavaScript number that is an
  integer below \<open>10^21\<close> in magnitude prints as its decimal digits; fractions, exponents
  and IEEE rounding are not part of the model). Strings are lists of 8-bit characters.
  An object is the list of its own properties in enumeration order.
\<close>

datatype json =
    JNull
  | JBool bool
  | JNum int
  | JStr string
  | JArr "json list"
  | JObj "(string \<times> json) list"

text \<open>A path segment is a number (an array index) or a string (an object key).\<close>

datatype seg = Idx nat | Key string

type_synonym path = "seg list"

subsection \<open>Numbers as text\<close>

definition digit_char :: "nat \<Rightarrow> char" where
  "digit_char d = ''0123456789'' ! d"

function show_nat :: "nat \<Rightarrow> string" where
  "show_nat n = (if n < 10 then [digit_char n] else show_nat (n div 10) @ [digit_char (n mod 10)])"
  by pat_completeness auto
termination
  by (relation "measure id") auto

declare show_nat.simps [simp del]

definition show_int :: "int \<Rightarrow> string" where
  "show_int i = (if i < 0 then CHR ''-'' # show_nat (nat (- i)) else show_nat (nat i))"

subsection \<open>The path formatter\<close>

text \<open>
  \<^verbatim>\<open>segments.join("][")\<close>: the segments' texts with the separator between neighbours.
\<close>

fun join :: "string \<Rightarrow> string list \<Rightarrow> string" where
  "join sep [] = []"
| "join sep [x] = x"
| "join sep (x # y # ys) = x @ sep @ join sep (y # ys)"

text \<open>
  \<^verbatim>\<open>seg => (typeof seg === "number" ? seg : `"${seg}"`)\<close>; \<^verbatim>\<open>join\<close> turns the number
  into its decimal text.
\<close>

fun path_segment :: "seg \<Rightarrow> string" where
  "path_segment (Idx n) = show_nat n"
| "path_segment (Key k) = CHR 0x22 # k @ [CHR 0x22]"

text \<open>The path of a node is optional (\<^verbatim>\<open>path?: NodeData["path"]\<close>).\<close>

definition jsonPathToString :: "path option \<Rightarrow> string" where
  "jsonPathToString p =
     (case p of
        None \<Rightarrow> ''$''
      | Some segs \<Rightarrow>
          if length segs = 0 then ''$''
          else ''$['' @ join '']['' (map path_segment segs) @ '']'')"

section \<open>Property access on JSON values\<close>

text \<open>
  The exceptions the code can raise. \<^verbatim>\<open>JSON.parse\<close> raises a \<^verbatim>\<open>SyntaxError\<close>; reading a
  property of \<^verbatim>\<open>null\<close> and, the module being strict-mode code, assigning a property of
  \<^verbatim>\<open>null\<close> or of a primitive raise a \<^verbatim>\<open>TypeError\<close>; an invalid array length raises a
  \<^verbatim>\<open>RangeError\<close>. The last constructor marks the one operation whose result depends on
  JavaScript's conversion of strings to floating-point numbers (assigning a string or an
  array to an array's \<^verbatim>\<open>length\<close>), which the model does not compute.
\<close>

datatype js_error = SyntaxError | TypeError | RangeError | NumberConversion

text \<open>
  A property key is a string; a number used as a key is its decimal text. A key is an
  array index when it is the decimal text, without leading zeros, of a number below
  \<open>2^32 - 1\<close>.
\<close>

fun prop_key :: "seg \<Rightarrow> string" where
  "prop_key (Idx n) = show_nat n"
| "prop_key (Key k) = k"

definition is_digit :: "char \<Rightarrow> bool" where
  "is_digit c = (c \<in> set ''0123456789'')"

definition digit_val :: "char \<Rightarrow> nat" where
  "digit_val c = of_char c - 48"

definition read_nat :: "string \<Rightarrow> nat" where
  "read_nat s = foldl (\<lambda>n c. 10 * n + digit_val c) 0 s"

definition array_index :: "string \<Rightarrow> nat option" where
  "array_index k =
     (if k \<noteq> [] \<and> list_all is_digit k \<and> (length k = 1 \<or> hd k \<noteq> CHR ''0'')
         \<and> read_nat k < 4294967295
      then Some (read_nat k) else None)"

text \<open>
  \<^verbatim>\<open>Array.isArray(v)\<close>, and \<^verbatim>\<open>typeof v === "object" && v !== null\<close>, on a value that was
  read (\<open>None\<close> is \<^verbatim>\<open>undefined\<close>).
\<close>

fun isArray :: "json option \<Rightarrow> bool" where
  "isArray (Some (JArr xs)) = True"
| "isArray v = False"

fun is_object :: "json option \<Rightarrow> bool" where
  "is_object (Some (JArr xs)) = True"
| "is_object (Some (JObj kvs)) = True"
| "is_object v = False"

text \<open>
  Reading \<^verbatim>\<open>v[k]\<close>, for \<open>v\<close> other than \<^verbatim>\<open>null\<close>: the value's own properties. Members
  inherited from the built-in prototypes are not part of the model: they are functions,
  which every test the code makes on a read value treats like \<^verbatim>\<open>undefined\<close>.
\<close>

fun js_get :: "json \<Rightarrow> string \<Rightarrow> json option" where
  "js_get (JObj kvs) k = map_of kvs k"
| "js_get (JArr xs) k =
     (case array_index k of
        Some i \<Rightarrow> if i < length xs then Some (xs ! i) else None
      | None \<Rightarrow> if k = ''length'' then Some (JNum (int (length xs))) else None)"
| "js_get (JStr s) k =
     (case array_index k of
        Some i \<Rightarrow> if i < length s then Some (JStr [s ! i]) else None
      | None \<Rightarrow> if k = ''length'' then Some (JNum (int (length s))) else None)"
| "js_get v k = None"

text \<open>
  The own properties of an object enumerate with the array-index keys first, in
  ascending order, and the other keys after them in the order of their creation.
  \<open>obj_put\<close> overwrites an existing property in place and creates a new one at its place
  in that order.
\<close>

definition goes_before :: "string \<Rightarrow> string \<Rightarrow> bool" where
  "goes_before k k' =
     (case array_index k of
        None \<Rightarrow> False
      | Some i \<Rightarrow> (case array_index k' of None \<Rightarrow> True | Some j \<Rightarrow> i < j))"

fun obj_update :: "(string \<times> 'v) list \<Rightarrow> string \<Rightarrow> 'v \<Rightarrow> (string \<times> 'v) list" where
  "obj_update [] k v = []"
| "obj_update ((k', v') # kvs) k v =
     (if k' = k then (k, v) # kvs else (k', v') # obj_update kvs k v)"

fun obj_insert :: "(string \<times> 'v) list \<Rightarrow> string \<Rightarrow> 'v \<Rightarrow> (string \<times> 'v) list" where
  "obj_insert [] k v = [(k, v)]"
| "obj_insert ((k', v') # kvs) k v =
     (if goes_before k k' then (k, v) # (k', v') # kvs else (k', v') # obj_insert kvs k v)"

definition obj_put :: "(string \<times> 'v) list \<Rightarrow> string \<Rightarrow> 'v \<Rightarrow> (string \<times> 'v) list" where
  "obj_put kvs k v =
     (case map_of kvs k of Some old \<Rightarrow> obj_update kvs k v | None \<Rightarrow> obj_insert kvs k v)"

text \<open>
  Writing an array element: beyond the end, the array grows and the elements in
  between are holes, which read as \<^verbatim>\<open>undefined\<close> and serialise as \<^verbatim>\<open>null\<close>; the code
  treats \<^verbatim>\<open>undefined\<close> and \<^verbatim>\<open>null\<close> alike wherever it tests a value, and the model keeps
  \<open>JNull\<close> for a hole.
\<close>

definition arr_put :: "json list \<Rightarrow> nat \<Rightarrow> json \<Rightarrow> json list" where
  "arr_put xs i v =
     (if i < length xs then xs[i := v] else xs @ replicate (i - length xs) JNull @ [v])"

text \<open>
  Assigning an array's \<^verbatim>\<open>length\<close>: the value converted to a number must be an integer
  in \<open>[0, 2^32)\<close>. A plain object converts to \<^verbatim>\<open>NaN\<close> (or has no primitive value when it
  has an own \<^verbatim>\<open>toString\<close>).
\<close>

definition arr_resize :: "json list \<Rightarrow> int \<Rightarrow> js_error + json" where
  "arr_resize xs n =
     (if 0 \<le> n \<and> n < 4294967296
      then Inr (JArr (take (nat n) xs @ replicate (nat n - length xs) JNull))
      else Inl RangeError)"

fun arr_set_length :: "json list \<Rightarrow> json \<Rightarrow> js_error + json" where
  "arr_set_length xs (JNum n) = arr_resize xs n"
| "arr_set_length xs JNull = arr_resize xs 0"
| "arr_set_length xs (JBool b) = arr_resize xs (if b then 1 else 0)"
| "arr_set_length xs (JObj kvs) =
     (if map_of kvs ''toString'' \<noteq> None then Inl TypeError else Inl RangeError)"
| "arr_set_length xs v = Inl NumberConversion"

text \<open>
  The assignment \<^verbatim>\<open>target[k] = v\<close>, returning the target after it. On an object,
  \<^verbatim>\<open>__proto__\<close> that is not an own property is the inherited setter, which leaves the
  own properties as they are. On an array, a key that is neither an index nor
  \<^verbatim>\<open>length\<close> becomes a property that \<^verbatim>\<open>JSON.stringify\<close> does not write.
\<close>

fun js_put :: "json \<Rightarrow> string \<Rightarrow> json \<Rightarrow> js_error + json" where
  "js_put (JObj kvs) k v =
     (if k = ''__proto__'' \<and> map_of kvs k = None then Inr (JObj kvs)
      else Inr (JObj (obj_put kvs k v)))"
| "js_put (JArr xs) k v =
     (case array_index k of
        Some i \<Rightarrow> Inr (JArr (arr_put xs i v))
      | None \<Rightarrow> if k = ''length'' then arr_set_length xs v else Inr (JArr xs))"
| "js_put t k v = Inl TypeError"

section \<open>The mutator\<close>

text \<open>
  \<^verbatim>\<open>setValueAtPath\<close>. The source walks \<open>target\<close> down the path, replacing on the way
  each child that fails the test of its segment, and assigns the value at the last
  segment; it mutates \<open>obj\<close> in place and returns it. The model returns the updated
  value: \<open>set_in target path value\<close> is \<open>target\<close> after the loop and the final assignment
  have run from \<open>target\<close> on the non-empty \<open>path\<close>. A child that the source updates in
  place is put back at its key, which changes nothing else in \<open>target\<close>.

  For a number segment the child must be an array (\<^verbatim>\<open>Array.isArray(target[seg])\<close>), for a
  string segment an object or an array (\<^verbatim>\<open>typeof target[seg] === "object"\<close>, not
  \<^verbatim>\<open>null\<close>); otherwise \<^verbatim>\<open>target[seg]\<close> is assigned \<^verbatim>\<open>[]\<close>, respectively \<^verbatim>\<open>{}\<close>, first.
\<close>

definition read_prop :: "json \<Rightarrow> string \<Rightarrow> js_error + json option" where
  "read_prop target k = (if target = JNull then Inl TypeError else Inr (js_get target k))"

fun keeps_child :: "seg \<Rightarrow> json option \<Rightarrow> bool" where
  "keeps_child (Idx n) c = isArray c"
| "keeps_child (Key k) c = is_object c"

fun fresh_container :: "seg \<Rightarrow> json" where
  "fresh_container (Idx n) = JArr []"
| "fresh_container (Key k) = JObj []"

fun set_in :: "json \<Rightarrow> path \<Rightarrow> json \<Rightarrow> js_error + json" where
  "set_in target [] v = Inr target"
| "set_in target [final] v = js_put target (prop_key final) v"
| "set_in target (seg # rest) v =
     (case read_prop target (prop_key seg) of
        Inl e \<Rightarrow> Inl e
      | Inr c \<Rightarrow>
          if keeps_child seg c then
            (case set_in (the c) rest v of
               Inl e \<Rightarrow> Inl e
             | Inr c' \<Rightarrow> js_put target (prop_key seg) c')
          else
            (case js_put target (prop_key seg) (fresh_container seg) of
               Inl e \<Rightarrow> Inl e
             | Inr target' \<Rightarrow>
                 (case set_in (fresh_container seg) rest v of
                    Inl e \<Rightarrow> Inl e
                  | Inr c' \<Rightarrow> js_put target' (prop_key seg) c')))"

declare set_in.simps [simp del]

definition setValueAtPath :: "json \<Rightarrow> path option \<Rightarrow> json \<Rightarrow> js_error + json" where
  "setValueAtPath obj p v =
     (case p of
        None \<Rightarrow> Inr v
      | Some segs \<Rightarrow> if length segs = 0 then Inr v else set_in obj segs v)"

text \<open>The containers the loop creates.\<close>

definition is_fresh :: "json \<Rightarrow> bool" where
  "is_fresh a = (a = JArr [] \<or> a = JObj [])"

text \<open>
  Not every assignment shows in the serialised document. \<open>plain_write target k\<close> holds
  when \<^verbatim>\<open>target[k] = v\<close> creates or overwrites a property that \<^verbatim>\<open>JSON.stringify\<close> writes:
  any key of an object but a \<^verbatim>\<open>__proto__\<close> that is not its own, and an index of an
  array. \<open>child_at\<close> is the container in which the loop of \<^verbatim>\<open>setValueAtPath\<close> continues
  after a segment, and \<open>plain_path\<close> holds when every assignment along the path is of
  that kind.
\<close>

fun plain_write :: "json \<Rightarrow> string \<Rightarrow> bool" where
  "plain_write (JObj kvs) k = (if k = ''__proto__'' then map_of kvs k \<noteq> None else True)"
| "plain_write (JArr xs) k = (array_index k \<noteq> None)"
| "plain_write t k = False"

definition child_at :: "json \<Rightarrow> seg \<Rightarrow> json" where
  "child_at target seg =
     (case js_get target (prop_key seg) of
        None \<Rightarrow> fresh_container seg
      | Some c \<Rightarrow> if keeps_child seg (Some c) then c else fresh_container seg)"

fun plain_path :: "json \<Rightarrow> path \<Rightarrow> bool" where
  "plain_path target [] = True"
| "plain_path target [final] = plain_write target (prop_key final)"
| "plain_path target (seg # rest) =
     (plain_write target (prop_key seg) \<and> plain_path (child_at target seg) rest)"

subsection \<open>Nodes\<close>

text \<open>
  The type \<^verbatim>\<open>NodeData\<close> is declared outside this file. A node carries an identifier, its
  rows (\<^verbatim>\<open>text\<close>, each row a key that may be absent, a value and a type name) and a path
  that may be absent.
\<close>

record row =
  row_key :: "string option"
  row_value :: json
  row_type :: string

record node =
  node_id :: string
  node_text :: "row list"
  node_path :: "path option"

text \<open>\<^verbatim>\<open>row.key\<close> as a condition: an absent key and the empty string are falsy.\<close>

definition has_key :: "row \<Rightarrow> bool" where
  "has_key r = (case row_key r of None \<Rightarrow> False | Some k \<Rightarrow> k \<noteq> [])"

text \<open>\<^verbatim>\<open>nodeData.text.length === 1 && !nodeData.text[0].key\<close>\<close>

definition singular :: "node \<Rightarrow> bool" where
  "singular n = (case node_text n of [r] \<Rightarrow> \<not> has_key r | _ \<Rightarrow> False)"

subsection \<open>Saving an edit\<close>

text \<open>
  The walk of \<^verbatim>\<open>handleSave\<close> to the object at the node's path:
  \<^verbatim>\<open>target = target?.[seg]; if (typeof target === "undefined") break;\<close>
\<close>

fun nav :: "json \<Rightarrow> path \<Rightarrow> json option" where
  "nav target [] = Some target"
| "nav target (seg # rest) =
     (case (if target = JNull then None else js_get target (prop_key seg)) of
        None \<Rightarrow> None
      | Some c \<Rightarrow> nav c rest)"

text \<open>
  \<^verbatim>\<open>Object.keys(parsed)\<close>: the own enumerable keys; it raises on \<^verbatim>\<open>null\<close>, and a number
  or a boolean has none.
\<close>

fun own_keys :: "json \<Rightarrow> js_error + string list" where
  "own_keys JNull = Inl TypeError"
| "own_keys (JObj kvs) = Inr (map fst kvs)"
| "own_keys (JArr xs) = Inr (map show_nat [0 ..< length xs])"
| "own_keys (JStr s) = Inr (map show_nat [0 ..< length s])"
| "own_keys v = Inr []"

text \<open>
  \<^verbatim>\<open>Object.keys(parsed).forEach(key => { target[key] = parsed[key]; })\<close>. Each key is an
  own key of \<open>parsed\<close>, so the read is never \<^verbatim>\<open>undefined\<close>.
\<close>

fun merge_keys :: "json \<Rightarrow> json \<Rightarrow> string list \<Rightarrow> js_error + json" where
  "merge_keys target parsed [] = Inr target"
| "merge_keys target parsed (k # ks) =
     (case js_get parsed k of
        None \<Rightarrow> merge_keys target parsed ks
      | Some v \<Rightarrow>
          (case js_put target k v of
             Inl e \<Rightarrow> Inl e
           | Inr target' \<Rightarrow> merge_keys target' parsed ks))"

text \<open>
  The branch of \<^verbatim>\<open>handleSave\<close> for a node that is not a single unkeyed row and has a
  path: merge into the object at the path and set it back, or set the parsed value at
  the path.
\<close>

definition merge_at_path :: "json \<Rightarrow> path \<Rightarrow> json \<Rightarrow> js_error + json" where
  "merge_at_path originalObj p parsed =
     (let target = nav originalObj p in
      if is_object target then
        (case own_keys parsed of
           Inl e \<Rightarrow> Inl e
         | Inr ks \<Rightarrow>
             (case merge_keys (the target) parsed ks of
                Inl e \<Rightarrow> Inl e
              | Inr target' \<Rightarrow> setValueAtPath originalObj (Some p) target'))
      else setValueAtPath originalObj (Some p) parsed)"

text \<open>
  The value \<^verbatim>\<open>handleSave\<close> serialises into the store, from the parsed stored document,
  the selected node and the parsed draft. The stored document and the draft are parsed
  by two calls, so \<open>originalObj\<close> and \<open>parsed\<close> share no object and the in-place
  assignments are updates of values.
\<close>

definition mutate :: "json \<Rightarrow> node option \<Rightarrow> json \<Rightarrow> js_error + json" where
  "mutate originalObj nodeData parsed =
     (case nodeData of
        None \<Rightarrow> Inr parsed
      | Some n \<Rightarrow>
          if singular n then setValueAtPath originalObj (node_path n) parsed
          else (case node_path n of
                  Some p \<Rightarrow> merge_at_path originalObj p parsed
                | None \<Rightarrow> Inr parsed))"

subsection \<open>Two nodes for the examples\<close>

text \<open>A node with one unkeyed row, and a node with two keyed rows, at a given path.\<close>

definition leaf_node :: "path option \<Rightarrow> node" where
  "leaf_node p =
     \<lparr>node_id = ''1'',
      node_text = [\<lparr>row_key = None, row_value = JNum 1, row_type = ''number''\<rparr>],
      node_path = p\<rparr>"

definition object_node :: "path option \<Rightarrow> node" where
  "object_node p =
     \<lparr>node_id = ''2'',
      node_text = [\<lparr>row_key = Some ''b'', row_value = JNum 1, row_type = ''number''\<rparr>,
                   \<lparr>row_key = Some ''c'', row_value = JNum 2, row_type = ''number''\<rparr>],
      node_path = p\<rparr>"

section \<open>JSON text\<close>

text \<open>
  \<^verbatim>\<open>JSON.stringify(value, null, 2)\<close> and \<^verbatim>\<open>JSON.parse\<close> on the values of the model.
  \<open>quote\<close> is the escaping of a string: the quote, the backslash and the characters
  below \<open>0x20\<close> are escaped, all others are copied. \<open>stringify ind v\<close> is the text of \<open>v\<close>
  at the indentation \<open>ind\<close>, two more spaces for each level.
\<close>

definition hex_char :: "nat \<Rightarrow> char" where
  "hex_char d = ''0123456789abcdef'' ! d"

definition escape_char :: "char \<Rightarrow> string" where
  "escape_char c =
     (if c = CHR 0x08 then [CHR 0x5C, CHR ''b'']
      else if c = CHR 0x09 then [CHR 0x5C, CHR ''t'']
      else if c = CHR 0x0A then [CHR 0x5C, CHR ''n'']
      else if c = CHR 0x0C then [CHR 0x5C, CHR ''f'']
      else if c = CHR 0x0D then [CHR 0x5C, CHR ''r'']
      else if c = CHR 0x22 then [CHR 0x5C, CHR 0x22]
      else if c = CHR 0x5C then [CHR 0x5C, CHR 0x5C]
      else if (of_char c :: nat) < 32
        then [CHR 0x5C, CHR ''u'', CHR ''0'', CHR ''0'', hex_char (of_char c div 16), hex_char (of_char c mod 16)]
      else [c])"

definition quote :: "string \<Rightarrow> string" where
  "quote s = CHR 0x22 # concat (map escape_char s) @ [CHR 0x22]"

fun stringify :: "string \<Rightarrow> json \<Rightarrow> string" where
  "stringify ind JNull = ''null''"
| "stringify ind (JBool b) = (if b then ''true'' else ''false'')"
| "stringify ind (JNum n) = show_int n"
| "stringify ind (JStr s) = quote s"
| "stringify ind (JArr xs) =
     (if xs = [] then ''[]''
      else ''['' @ [CHR 0x0A] @ (ind @ ''  '')
           @ join ('','' @ [CHR 0x0A] @ (ind @ ''  '')) (map (stringify (ind @ ''  '')) xs)
           @ [CHR 0x0A] @ ind @ '']'')"
| "stringify ind (JObj kvs) =
     (if kvs = [] then ''{}''
      else ''{'' @ [CHR 0x0A] @ (ind @ ''  '')
           @ join ('','' @ [CHR 0x0A] @ (ind @ ''  ''))
               (map (\<lambda>(k, v). quote k @ '': '' @ stringify (ind @ ''  '') v) kvs)
           @ [CHR 0x0A] @ ind @ ''}'')"


text \<open>
  The parser follows the JSON grammar: white space is the space, the tab, the line feed
  and the carriage return; a string may not hold a raw character below \<open>0x20\<close>; a number
  is an optional minus sign, an integer part without leading zero, an optional fraction
  and an optional exponent. Every text of the grammar is read to its end, but not every
  value is a value of the model: a number written with a fraction or an exponent, and a
  \<^verbatim>\<open>\u\<close> escape of a character above \<open>0xFF\<close>, are read and give no value. So each
  function returns \<open>None\<close> where \<^verbatim>\<open>JSON.parse\<close> raises its \<^verbatim>\<open>SyntaxError\<close>, and otherwise
  the rest of the text with the value read, or with \<open>None\<close> when the text read denotes a
  value outside the model. An object is built by defining its members in the order of
  the text, a later member of the same key overwriting the earlier one.
\<close>

definition is_ws :: "char \<Rightarrow> bool" where
  "is_ws c = (c = CHR '' '' \<or> c = CHR 0x09 \<or> c = CHR 0x0A \<or> c = CHR 0x0D)"

definition skip_ws :: "string \<Rightarrow> string" where
  "skip_ws s = dropWhile is_ws s"

definition is_hex :: "char \<Rightarrow> bool" where
  "is_hex c = (c \<in> set ''0123456789abcdefABCDEF'')"

definition hex_val :: "char \<Rightarrow> nat" where
  "hex_val c =
     (if is_digit c then of_char c - 48
      else if c \<in> set ''abcdef'' then of_char c - 87
      else of_char c - 55)"

definition unescape :: "char \<Rightarrow> char option" where
  "unescape e =
     (if e = CHR 0x22 then Some (CHR 0x22)
      else if e = CHR 0x5C then Some (CHR 0x5C)
      else if e = CHR ''/'' then Some (CHR ''/'')
      else if e = CHR ''b'' then Some (CHR 0x08)
      else if e = CHR ''f'' then Some (CHR 0x0C)
      else if e = CHR ''n'' then Some (CHR 0x0A)
      else if e = CHR ''r'' then Some (CHR 0x0D)
      else if e = CHR ''t'' then Some (CHR 0x09)
      else None)"

text \<open>Values that may be outside the model are put together: one outside, all outside.\<close>

definition cons_opt :: "'a option \<Rightarrow> 'a list option \<Rightarrow> 'a list option" where
  "cons_opt x xs =
     (case x of None \<Rightarrow> None | Some a \<Rightarrow> (case xs of None \<Rightarrow> None | Some as \<Rightarrow> Some (a # as)))"

definition pair_opt :: "'a option \<Rightarrow> 'b option \<Rightarrow> ('a \<times> 'b) option" where
  "pair_opt x y =
     (case x of None \<Rightarrow> None | Some a \<Rightarrow> (case y of None \<Rightarrow> None | Some b \<Rightarrow> Some (a, b)))"

text \<open>
  The character of a \<^verbatim>\<open>\u\<close> escape with the hexadecimal digits \<open>h1 h2 h3 h4\<close>, when it is
  one of the 8-bit characters.
\<close>

definition escaped_char :: "char \<Rightarrow> char \<Rightarrow> char \<Rightarrow> char \<Rightarrow> char option" where
  "escaped_char h1 h2 h3 h4 =
     (if hex_val h1 = 0 \<and> hex_val h2 = 0 then Some (char_of (16 * hex_val h3 + hex_val h4))
      else None)"

fun parse_string :: "string \<Rightarrow> (string option \<times> string) option" where
  "parse_string [] = None"
| "parse_string (c # cs) =
     (if c = CHR 0x22 then Some (Some [], cs)
      else if c = CHR 0x5C then
        (case cs of
           [] \<Rightarrow> None
         | e # r \<Rightarrow>
             if e = CHR ''u'' then
               (case r of
                  h1 # h2 # h3 # h4 # r' \<Rightarrow>
                    if is_hex h1 \<and> is_hex h2 \<and> is_hex h3 \<and> is_hex h4
                    then (case parse_string r' of
                            None \<Rightarrow> None
                          | Some (str, rest) \<Rightarrow>
                              Some (cons_opt (escaped_char h1 h2 h3 h4) str, rest))
                    else None
                | _ \<Rightarrow> None)
             else
               (case unescape e of
                  None \<Rightarrow> None
                | Some ch \<Rightarrow>
                    (case parse_string r of
                       None \<Rightarrow> None
                     | Some (str, rest) \<Rightarrow> Some (cons_opt (Some ch) str, rest))))
      else if (of_char c :: nat) < 32 then None
      else (case parse_string cs of
              None \<Rightarrow> None
            | Some (str, rest) \<Rightarrow> Some (cons_opt (Some c) str, rest)))"

text \<open>
  The integer part: \<open>0\<close> alone, or digits that do not start with \<open>0\<close>. The fraction, a
  point and at least one digit, and the exponent, \<open>e\<close> or \<open>E\<close>, an optional sign and at
  least one digit, are read for the grammar only: \<open>True\<close> says that one was there.
\<close>

definition parse_digits :: "string \<Rightarrow> (nat \<times> string) option" where
  "parse_digits s =
     (let ds = takeWhile is_digit s; rest = dropWhile is_digit s in
      if ds = [] then None
      else if hd ds = CHR ''0'' then Some (0, tl s)
      else Some (read_nat ds, rest))"

definition parse_fraction :: "string \<Rightarrow> (bool \<times> string) option" where
  "parse_fraction s =
     (case s of
        [] \<Rightarrow> Some (False, s)
      | c # cs \<Rightarrow>
          if c = CHR ''.'' then
            (if takeWhile is_digit cs = [] then None else Some (True, dropWhile is_digit cs))
          else Some (False, s))"

definition parse_exponent :: "string \<Rightarrow> (bool \<times> string) option" where
  "parse_exponent s =
     (case s of
        [] \<Rightarrow> Some (False, s)
      | c # cs \<Rightarrow>
          if c = CHR ''e'' \<or> c = CHR ''E'' then
            (let ds = (case cs of
                         [] \<Rightarrow> cs
                       | d # r \<Rightarrow> if d = CHR ''+'' \<or> d = CHR ''-'' then r else cs)
             in if takeWhile is_digit ds = [] then None else Some (True, dropWhile is_digit ds))
          else Some (False, s))"

definition number_rest :: "int \<Rightarrow> string \<Rightarrow> (json option \<times> string) option" where
  "number_rest i r1 =
     (case parse_fraction r1 of
        None \<Rightarrow> None
      | Some (f, r2) \<Rightarrow>
          (case parse_exponent r2 of
             None \<Rightarrow> None
           | Some (e, r3) \<Rightarrow> Some (if f \<or> e then None else Some (JNum i), r3)))"

definition parse_number :: "string \<Rightarrow> (json option \<times> string) option" where
  "parse_number s =
     (case s of
        [] \<Rightarrow> None
      | c # cs \<Rightarrow>
          if c = CHR ''-'' then
            (case parse_digits cs of None \<Rightarrow> None | Some (n, rest) \<Rightarrow> number_rest (- int n) rest)
          else
            (case parse_digits s of None \<Rightarrow> None | Some (n, rest) \<Rightarrow> number_rest (int n) rest))"

definition parse_literal :: "string \<Rightarrow> (json option \<times> string) option" where
  "parse_literal s =
     (if take 4 s = ''null'' then Some (Some JNull, drop 4 s)
      else if take 4 s = ''true'' then Some (Some (JBool True), drop 4 s)
      else if take 5 s = ''false'' then Some (Some (JBool False), drop 5 s)
      else None)"

definition object_of :: "(string \<times> json) list \<Rightarrow> json" where
  "object_of kvs = JObj (foldl (\<lambda>obj (k, v). obj_put obj k v) [] kvs)"

lemma length_skip_ws: "length (skip_ws s) \<le> length s"
  by (simp add: skip_ws_def length_dropWhile_le)

lemma skip_ws_Cons: "skip_ws s = d # ds \<Longrightarrow> length ds < length s"
  using length_skip_ws [of s] by simp

lemma skip_ws_less: "length r < n \<Longrightarrow> length (skip_ws r) < n"
  using length_skip_ws [of r] by simp

function parse_value :: "string \<Rightarrow> (json option \<times> string) option"
  and parse_elements :: "string \<Rightarrow> (json list option \<times> string) option"
  and parse_members :: "string \<Rightarrow> ((string \<times> json) list option \<times> string) option"
where
  "parse_value s =
     (case s of
        [] \<Rightarrow> None
      | c # cs \<Rightarrow>
          if c = CHR 0x22 then
            (case parse_string cs of
               None \<Rightarrow> None
             | Some (str, rest) \<Rightarrow> Some (map_option JStr str, rest))
          else if c = CHR ''['' then
            (case skip_ws cs of
               [] \<Rightarrow> None
             | d # ds \<Rightarrow>
                 if d = CHR '']'' then Some (Some (JArr []), ds)
                 else (case parse_elements (d # ds) of
                         None \<Rightarrow> None
                       | Some (xs, rest) \<Rightarrow> Some (map_option JArr xs, rest)))
          else if c = CHR ''{'' then
            (case skip_ws cs of
               [] \<Rightarrow> None
             | d # ds \<Rightarrow>
                 if d = CHR ''}'' then Some (Some (JObj []), ds)
                 else (case parse_members (d # ds) of
                         None \<Rightarrow> None
                       | Some (kvs, rest) \<Rightarrow> Some (map_option object_of kvs, rest)))
          else if c = CHR ''-'' \<or> is_digit c then parse_number s
          else parse_literal s)"
| "parse_elements s =
     (case parse_value s of
        None \<Rightarrow> None
      | Some (v, r) \<Rightarrow>
          if length r < length s then
            (case skip_ws r of
               [] \<Rightarrow> None
             | d # ds \<Rightarrow>
                 if d = CHR '']'' then Some (cons_opt v (Some []), ds)
                 else if d = CHR '','' then
                   (case parse_elements (skip_ws ds) of
                      None \<Rightarrow> None
                    | Some (vs, rest) \<Rightarrow> Some (cons_opt v vs, rest))
                 else None)
          else None)"
| "parse_members s =
     (case s of
        [] \<Rightarrow> None
      | c # cs \<Rightarrow>
          if c = CHR 0x22 then
            (case parse_string cs of
               None \<Rightarrow> None
             | Some (k, r1) \<Rightarrow>
                 (case skip_ws r1 of
                    [] \<Rightarrow> None
                  | d # r2 \<Rightarrow>
                      if d = CHR '':'' \<and> length r2 < length s then
                        (case parse_value (skip_ws r2) of
                           None \<Rightarrow> None
                         | Some (v, r3) \<Rightarrow>
                             if length r3 < length s then
                               (case skip_ws r3 of
                                  [] \<Rightarrow> None
                                | e # r4 \<Rightarrow>
                                    if e = CHR ''}'' then
                                      Some (cons_opt (pair_opt k v) (Some []), r4)
                                    else if e = CHR '','' then
                                      (case parse_members (skip_ws r4) of
                                         None \<Rightarrow> None
                                       | Some (kvs, rest) \<Rightarrow>
                                           Some (cons_opt (pair_opt k v) kvs, rest))
                                    else None)
                             else None)
                      else None))
          else None)"
  by pat_completeness auto

termination
  apply (relation "measure (\<lambda>x. case x of
            Inl s \<Rightarrow> 2 * length s
          | Inr (Inl s) \<Rightarrow> 2 * length s + 1
          | Inr (Inr s) \<Rightarrow> 2 * length s + 1)")
  apply (auto dest!: skip_ws_Cons intro!: skip_ws_less)
  subgoal for cs k b r2
    using length_skip_ws [of r2] by linarith
  subgoal for cs k b r2 v r3 r4
    using length_skip_ws [of r4] by linarith
  done

text \<open>
  \<^verbatim>\<open>JSON.parse(text)\<close>: one value, with white space around it and nothing else. The result
  is \<open>Bad\<close> where \<^verbatim>\<open>JSON.parse\<close> raises its \<^verbatim>\<open>SyntaxError\<close>, whose message is the engine's
  and is not modelled, \<open>Got v\<close> where it returns the value \<open>v\<close> of the model, and \<open>Beyond\<close>
  where it returns a value outside the model.
\<close>

declare parse_value.simps [simp del] parse_elements.simps [simp del] parse_members.simps [simp del]

datatype 'a reading = Got 'a | Bad | Beyond

definition JSON_parse :: "string \<Rightarrow> json reading" where
  "JSON_parse text =
     (case parse_value (skip_ws text) of
        None \<Rightarrow> Bad
      | Some (v, rest) \<Rightarrow>
          if skip_ws rest = [] then (case v of Some x \<Rightarrow> Got x | None \<Rightarrow> Beyond) else Bad)"

section \<open>The normalizer\<close>

text \<open>
  The template literal \<^verbatim>\<open>`${value}`\<close>: a string is itself, a number its digits, an array
  its elements joined by commas (\<^verbatim>\<open>null\<close> as the empty text), an object the text
  \<^verbatim>\<open>[object Object]\<close>.
\<close>

fun to_string :: "json \<Rightarrow> string" where
  "to_string JNull = ''null''"
| "to_string (JBool b) = (if b then ''true'' else ''false'')"
| "to_string (JNum n) = show_int n"
| "to_string (JStr s) = s"
| "to_string (JArr xs) = join '','' (map (\<lambda>x. if x = JNull then [] else to_string x) xs)"
| "to_string (JObj kvs) = ''[object Object]''"

text \<open>
  \<^verbatim>\<open>normalizeNodeData\<close>. The loop assigns \<^verbatim>\<open>obj[row.key] = row.value\<close> for each row whose
  type is neither \<^verbatim>\<open>array\<close> nor \<^verbatim>\<open>object\<close> and whose key is truthy; \<open>collect_row\<close> is one
  round of it on the properties of \<open>obj\<close>. (The callers pass \<^verbatim>\<open>nodeData?.text ?? []\<close>, so the
  rows are never \<^verbatim>\<open>undefined\<close>.)
\<close>

definition assign :: "(string \<times> json) list \<Rightarrow> string \<Rightarrow> json \<Rightarrow> (string \<times> json) list" where
  "assign obj k v = (case js_put (JObj obj) k v of Inr (JObj obj') \<Rightarrow> obj' | _ \<Rightarrow> obj)"

definition collect_row :: "(string \<times> json) list \<Rightarrow> row \<Rightarrow> (string \<times> json) list" where
  "collect_row obj r =
     (if row_type r \<noteq> ''array'' \<and> row_type r \<noteq> ''object'' then
        (case row_key r of
           None \<Rightarrow> obj
         | Some k \<Rightarrow> if k \<noteq> [] then assign obj k (row_value r) else obj)
      else obj)"

definition normalizeNodeData :: "row list \<Rightarrow> string" where
  "normalizeNodeData nodeRows =
     (if length nodeRows = 0 then ''{}''
      else if length nodeRows = 1 \<and> \<not> has_key (nodeRows ! 0) then to_string (row_value (nodeRows ! 0))
      else stringify [] (JObj (foldl collect_row [] nodeRows)))"

text \<open>
  The rows the object of \<^verbatim>\<open>normalizeNodeData\<close> is built from: those of a type other than
  \<^verbatim>\<open>array\<close> and \<^verbatim>\<open>object\<close> with a truthy key, each as its key and value. A scalar is
  a value that is neither an array nor an object.
\<close>

definition editable_row :: "row \<Rightarrow> bool" where
  "editable_row r = (row_type r \<noteq> ''array'' \<and> row_type r \<noteq> ''object'' \<and> has_key r)"

definition row_pair :: "row \<Rightarrow> string \<times> json" where
  "row_pair r = (case row_key r of Some k \<Rightarrow> (k, row_value r) | None \<Rightarrow> ([], row_value r))"

fun is_scalar :: "json \<Rightarrow> bool" where
  "is_scalar (JArr xs) = False"
| "is_scalar (JObj kvs) = False"
| "is_scalar v = True"

fun is_str :: "json \<Rightarrow> bool" where
  "is_str (JStr s) = True"
| "is_str v = False"

text \<open>
  The pieces of the text of a flat object at the top level: one member, and the
  separator between two members. A text \<open>r\<close> after a number ends the number when it does
  not go on with a digit, a point or an exponent.
\<close>

definition member_text :: "string \<times> json \<Rightarrow> string" where
  "member_text kv = quote (fst kv) @ '': '' @ stringify ''  '' (snd kv)"

definition member_sep :: string where
  "member_sep = [CHR '','', CHR 0x0A, CHR '' '', CHR '' '']"

definition ends_number :: "string \<Rightarrow> bool" where
  "ends_number r =
     (case r of
        [] \<Rightarrow> True
      | c # cs \<Rightarrow> \<not> is_digit c \<and> c \<noteq> CHR ''.'' \<and> c \<noteq> CHR ''e'' \<and> c \<noteq> CHR ''E'')"

text \<open>Three row lists for the examples.\<close>

definition rows_bcd :: "row list" where
  "rows_bcd =
     [\<lparr>row_key = Some ''b'', row_value = JNum 1, row_type = ''number''\<rparr>,
      \<lparr>row_key = Some ''d'', row_value = JStr ''{3 keys}'', row_type = ''object''\<rparr>,
      \<lparr>row_key = Some ''c'', row_value = JStr ''x'', row_type = ''string''\<rparr>]"

definition rows_aa :: "row list" where
  "rows_aa =
     [\<lparr>row_key = Some ''a'', row_value = JNum 1, row_type = ''number''\<rparr>,
      \<lparr>row_key = Some ''a'', row_value = JNum 2, row_type = ''number''\<rparr>]"

definition rows_b1 :: "row list" where
  "rows_b1 =
     [\<lparr>row_key = Some ''b'', row_value = JNum 1, row_type = ''number''\<rparr>,
      \<lparr>row_key = Some ''1'', row_value = JNum 2, row_type = ''number''\<rparr>]"

section \<open>The re-locator\<close>

text \<open>
  After the store has rebuilt the nodes, \<^verbatim>\<open>handleSave\<close> looks for the first node whose
  path has the same text as the path of the edited node:
  \<^verbatim>\<open>nodes.find(n => JSON.stringify(n.path ?? []) === pathStr)\<close>. The text of a path is
  that of an array of numbers and strings without indentation.
\<close>

fun seg_json :: "seg \<Rightarrow> json" where
  "seg_json (Idx n) = JNum (int n)"
| "seg_json (Key k) = JStr k"

definition stringify_path :: "path \<Rightarrow> string" where
  "stringify_path p = ''['' @ join '','' (map (\<lambda>s. stringify [] (seg_json s)) p) @ '']''"

definition path_or_empty :: "path option \<Rightarrow> path" where
  "path_or_empty p = (case p of None \<Rightarrow> [] | Some segs \<Rightarrow> segs)"

definition relocate :: "node list \<Rightarrow> path option \<Rightarrow> node option" where
  "relocate nodes target =
     find (\<lambda>n. stringify_path (path_or_empty (node_path n)) = stringify_path (path_or_empty target))
       nodes"

text \<open>The text of a path after its first segment.\<close>

definition path_tail_text :: "path \<Rightarrow> string" where
  "path_tail_text p =
     (if p = [] then '']''
      else '','' @ join '','' (map (\<lambda>s. stringify [] (seg_json s)) p) @ '']'')"

section \<open>Saving when the stored text does not parse\<close>

text \<open>
  When \<^verbatim>\<open>JSON.parse(originalJson)\<close> fails, \<^verbatim>\<open>originalObj = parsed\<close>: the document and the
  edited value are one and the same object, and the assignments of the merge and of
  \<^verbatim>\<open>setValueAtPath\<close> put that object, or parts of it, inside itself. Values no longer
  describe this, so this case is run on a store: an address holds an object or an
  array, whose members are primitive values or addresses.
\<close>

datatype hval = HPrim json | HRef nat

datatype hobj = HObj "(string \<times> hval) list" | HArr "hval list"

type_synonym heap = "hobj list"

text \<open>\<^verbatim>\<open>JSON.parse\<close> builds new objects: the value is laid out at new addresses.\<close>

fun alloc :: "json \<Rightarrow> heap \<Rightarrow> hval \<times> heap"
  and alloc_list :: "json list \<Rightarrow> heap \<Rightarrow> hval list \<times> heap"
  and alloc_fields :: "(string \<times> json) list \<Rightarrow> heap \<Rightarrow> (string \<times> hval) list \<times> heap"
where
  "alloc (JArr xs) h = (case alloc_list xs h of (vs, h') \<Rightarrow> (HRef (length h'), h' @ [HArr vs]))"
| "alloc (JObj kvs) h = (case alloc_fields kvs h of (fs, h') \<Rightarrow> (HRef (length h'), h' @ [HObj fs]))"
| "alloc JNull h = (HPrim JNull, h)"
| "alloc (JBool b) h = (HPrim (JBool b), h)"
| "alloc (JNum n) h = (HPrim (JNum n), h)"
| "alloc (JStr s) h = (HPrim (JStr s), h)"
| "alloc_list [] h = ([], h)"
| "alloc_list (x # xs) h =
     (case alloc x h of (v, h1) \<Rightarrow> (case alloc_list xs h1 of (vs, h2) \<Rightarrow> (v # vs, h2)))"
| "alloc_fields [] h = ([], h)"
| "alloc_fields (kv # kvs) h =
     (case alloc (snd kv) h of (v, h1) \<Rightarrow>
        (case alloc_fields kvs h1 of (fs, h2) \<Rightarrow> ((fst kv, v) # fs, h2)))"

text \<open>
  Reading and assigning a property, as \<open>js_get\<close> and \<open>js_put\<close> do on values. On the
  store a value can be the object it is assigned to: the inherited setter of
  \<^verbatim>\<open>__proto__\<close> then raises a \<^verbatim>\<open>TypeError\<close>, the object being its own prototype otherwise.
\<close>

fun hget :: "heap \<Rightarrow> hval \<Rightarrow> string \<Rightarrow> hval option" where
  "hget h (HPrim v) k = map_option HPrim (js_get v k)"
| "hget h (HRef a) k =
     (if a < length h then
        (case h ! a of
           HObj fs \<Rightarrow> map_of fs k
         | HArr vs \<Rightarrow>
             (case array_index k of
                Some i \<Rightarrow> if i < length vs then Some (vs ! i) else None
              | None \<Rightarrow> if k = ''length'' then Some (HPrim (JNum (int (length vs)))) else None))
      else None)"

definition harr_put :: "hval list \<Rightarrow> nat \<Rightarrow> hval \<Rightarrow> hval list" where
  "harr_put vs i v =
     (if i < length vs then vs[i := v] else vs @ replicate (i - length vs) (HPrim JNull) @ [v])"

text \<open>
  What the conversion of a value to a number looks at: a primitive value itself, of an
  object its own keys, of an array nothing that the model computes.
\<close>

definition shallow :: "heap \<Rightarrow> hval \<Rightarrow> json" where
  "shallow h v =
     (case v of
        HPrim p \<Rightarrow> p
      | HRef a \<Rightarrow>
          (if a < length h then
             (case h ! a of HObj fs \<Rightarrow> JObj (map (\<lambda>f. (fst f, JNull)) fs) | HArr vs \<Rightarrow> JArr [])
           else JNull))"

definition harr_set_length :: "heap \<Rightarrow> hval list \<Rightarrow> hval \<Rightarrow> js_error + hval list" where
  "harr_set_length h vs v =
     (case arr_set_length (replicate (length vs) JNull) (shallow h v) of
        Inl e \<Rightarrow> Inl e
      | Inr r \<Rightarrow>
          (case r of
             JArr ys \<Rightarrow> Inr (take (length ys) vs @ replicate (length ys - length vs) (HPrim JNull))
           | _ \<Rightarrow> Inr vs))"

fun hput :: "heap \<Rightarrow> hval \<Rightarrow> string \<Rightarrow> hval \<Rightarrow> js_error + heap" where
  "hput h (HPrim p) k v = Inl TypeError"
| "hput h (HRef a) k v =
     (if a < length h then
        (case h ! a of
           HObj fs \<Rightarrow>
             if k = ''__proto__'' \<and> map_of fs k = None
             then (if v = HRef a then Inl TypeError else Inr h)
             else Inr (h[a := HObj (obj_put fs k v)])
         | HArr vs \<Rightarrow>
             (case array_index k of
                Some i \<Rightarrow> Inr (h[a := HArr (harr_put vs i v)])
              | None \<Rightarrow>
                  if k = ''length'' then
                    (case harr_set_length h vs v of
                       Inl e \<Rightarrow> Inl e
                     | Inr vs' \<Rightarrow> Inr (h[a := HArr vs']))
                  else if k = ''__proto__'' \<and> v = HRef a then Inl TypeError
                  else Inr h))
      else Inl TypeError)"

text \<open>
  \<^verbatim>\<open>setValueAtPath\<close> on the store. A child that fails the test of its segment is replaced
  by a new empty container, in which the walk goes on.
\<close>

fun hkeeps :: "heap \<Rightarrow> seg \<Rightarrow> hval option \<Rightarrow> bool" where
  "hkeeps h (Idx n) (Some (HRef a)) =
     (a < length h \<and> (case h ! a of HArr vs \<Rightarrow> True | HObj fs \<Rightarrow> False))"
| "hkeeps h (Key k) (Some (HRef a)) = True"
| "hkeeps h seg c = False"

fun fresh_hobj :: "seg \<Rightarrow> hobj" where
  "fresh_hobj (Idx n) = HArr []"
| "fresh_hobj (Key k) = HObj []"

fun set_in_h :: "heap \<Rightarrow> hval \<Rightarrow> path \<Rightarrow> hval \<Rightarrow> js_error + heap" where
  "set_in_h h target [] v = Inr h"
| "set_in_h h target [final] v = hput h target (prop_key final) v"
| "set_in_h h target (seg # rest) v =
     (if target = HPrim JNull then Inl TypeError
      else
        (case hget h target (prop_key seg) of
           None \<Rightarrow>
             (case hput (h @ [fresh_hobj seg]) target (prop_key seg) (HRef (length h)) of
                Inl e \<Rightarrow> Inl e
              | Inr h' \<Rightarrow> set_in_h h' (HRef (length h)) rest v)
         | Some c \<Rightarrow>
             if hkeeps h seg (Some c) then set_in_h h c rest v
             else
               (case hput (h @ [fresh_hobj seg]) target (prop_key seg) (HRef (length h)) of
                  Inl e \<Rightarrow> Inl e
                | Inr h' \<Rightarrow> set_in_h h' (HRef (length h)) rest v)))"

declare set_in_h.simps [simp del]

definition setValueAtPath_h :: "heap \<Rightarrow> hval \<Rightarrow> path option \<Rightarrow> hval \<Rightarrow> js_error + hval \<times> heap" where
  "setValueAtPath_h h obj p v =
     (case p of
        None \<Rightarrow> Inr (v, h)
      | Some segs \<Rightarrow>
          if length segs = 0 then Inr (v, h)
          else (case set_in_h h obj segs v of Inl e \<Rightarrow> Inl e | Inr h' \<Rightarrow> Inr (obj, h')))"

fun nav_h :: "heap \<Rightarrow> hval \<Rightarrow> path \<Rightarrow> hval option" where
  "nav_h h target [] = Some target"
| "nav_h h target (seg # rest) =
     (case (if target = HPrim JNull then None else hget h target (prop_key seg)) of
        None \<Rightarrow> None
      | Some c \<Rightarrow> nav_h h c rest)"

definition own_keys_h :: "heap \<Rightarrow> hval \<Rightarrow> js_error + string list" where
  "own_keys_h h v =
     (case v of
        HPrim p \<Rightarrow> own_keys p
      | HRef a \<Rightarrow>
          (if a < length h then
             (case h ! a of
                HObj fs \<Rightarrow> Inr (map fst fs)
              | HArr vs \<Rightarrow> Inr (map show_nat [0 ..< length vs]))
           else Inr []))"

fun merge_keys_h :: "heap \<Rightarrow> hval \<Rightarrow> hval \<Rightarrow> string list \<Rightarrow> js_error + heap" where
  "merge_keys_h h target parsed [] = Inr h"
| "merge_keys_h h target parsed (k # ks) =
     (case hget h parsed k of
        None \<Rightarrow> merge_keys_h h target parsed ks
      | Some v \<Rightarrow>
          (case hput h target k v of
             Inl e \<Rightarrow> Inl e
           | Inr h' \<Rightarrow> merge_keys_h h' target parsed ks))"

definition merge_at_path_h :: "heap \<Rightarrow> hval \<Rightarrow> path \<Rightarrow> hval \<Rightarrow> js_error + hval \<times> heap" where
  "merge_at_path_h h originalObj p parsed =
     (case nav_h h originalObj p of
        Some (HRef a) \<Rightarrow>
          (case own_keys_h h parsed of
             Inl e \<Rightarrow> Inl e
           | Inr ks \<Rightarrow>
               (case merge_keys_h h (HRef a) parsed ks of
                  Inl e \<Rightarrow> Inl e
                | Inr h' \<Rightarrow> setValueAtPath_h h' originalObj (Some p) (HRef a)))
      | _ \<Rightarrow> setValueAtPath_h h originalObj (Some p) parsed)"

text \<open>
  \<^verbatim>\<open>JSON.stringify\<close> walks the object and raises a \<^verbatim>\<open>TypeError\<close> when it meets an object
  inside itself. \<open>read_back n h v\<close> is the value it writes, going at most \<open>n\<close> objects
  deep: a store of \<open>n\<close> objects has a deeper chain only through an object that is
  inside itself.
\<close>

fun collect :: "(js_error + 'a) list \<Rightarrow> js_error + 'a list" where
  "collect [] = Inr []"
| "collect (Inl e # rs) = Inl e"
| "collect (Inr x # rs) = (case collect rs of Inl e \<Rightarrow> Inl e | Inr xs \<Rightarrow> Inr (x # xs))"

fun read_back :: "nat \<Rightarrow> heap \<Rightarrow> hval \<Rightarrow> js_error + json" where
  "read_back n h (HPrim p) = Inr p"
| "read_back 0 h (HRef a) = Inl TypeError"
| "read_back (Suc n) h (HRef a) =
     (if a < length h then
        (case h ! a of
           HArr vs \<Rightarrow>
             (case collect (map (read_back n h) vs) of Inl e \<Rightarrow> Inl e | Inr xs \<Rightarrow> Inr (JArr xs))
         | HObj fs \<Rightarrow>
             (case collect (map (\<lambda>f. case read_back n h (snd f) of
                                        Inl e \<Rightarrow> Inl e | Inr x \<Rightarrow> Inr (fst f, x)) fs) of
                Inl e \<Rightarrow> Inl e
              | Inr kvs \<Rightarrow> Inr (JObj kvs)))
      else Inl TypeError)"

definition serialised :: "js_error + hval \<times> heap \<Rightarrow> js_error + json" where
  "serialised res =
     (case res of Inl e \<Rightarrow> Inl e | Inr (v, h) \<Rightarrow> read_back (length h) h v)"

text \<open>
  The three branches of \<^verbatim>\<open>handleSave\<close> with \<^verbatim>\<open>originalObj = parsed\<close>: the parsed value
  is laid out in an empty store, the branch runs with the one address as document and
  as value, and the result is what \<^verbatim>\<open>JSON.stringify\<close> writes.
\<close>

definition mutate_shared :: "json \<Rightarrow> node option \<Rightarrow> js_error + json" where
  "mutate_shared parsed nodeData =
     (case alloc parsed [] of
        (r, h) \<Rightarrow>
          (case nodeData of
             None \<Rightarrow> serialised (Inr (r, h))
           | Some n \<Rightarrow>
               if singular n then serialised (setValueAtPath_h h r (node_path n) r)
               else (case node_path n of
                       Some p \<Rightarrow> serialised (merge_at_path_h h r p r)
                     | None \<Rightarrow> serialised (Inr (r, h)))))"

text \<open>An edit has no path when no node is selected or the node's path is empty or absent.\<close>

definition no_path :: "node option \<Rightarrow> bool" where
  "no_path nodeData = (case nodeData of None \<Rightarrow> True | Some n \<Rightarrow> path_or_empty (node_path n) = [])"

text \<open>The number of objects and arrays in a value, and a member read back.\<close>

fun count :: "json \<Rightarrow> nat"
  and count_list :: "json list \<Rightarrow> nat"
  and count_fields :: "(string \<times> json) list \<Rightarrow> nat"
where
  "count (JArr xs) = Suc (count_list xs)"
| "count (JObj kvs) = Suc (count_fields kvs)"
| "count JNull = 0"
| "count (JBool b) = 0"
| "count (JNum n) = 0"
| "count (JStr s) = 0"
| "count_list [] = 0"
| "count_list (x # xs) = count x + count_list xs"
| "count_fields [] = 0"
| "count_fields (kv # kvs) = count (snd kv) + count_fields kvs"

definition field_back :: "nat \<Rightarrow> heap \<Rightarrow> string \<times> hval \<Rightarrow> js_error + string \<times> json" where
  "field_back n h f = (case read_back n h (snd f) of Inl e \<Rightarrow> Inl e | Inr x \<Rightarrow> Inr (fst f, x))"

section \<open>The save handler\<close>

text \<open>
  The state \<^verbatim>\<open>handleSave\<close> reads and writes: the text in the document store, the nodes
  and the selected node of the graph store, and the component's \<^verbatim>\<open>editing\<close>, \<^verbatim>\<open>draft\<close>
  and \<^verbatim>\<open>error\<close>. The error shown is the message of the exception caught; the model
  keeps the exception. The stores are outside this file: \<^verbatim>\<open>setJson\<close> stores the text
  and the graph store rebuilds its nodes from it, by a function \<open>rebuild\<close> that the
  model takes as a parameter.
\<close>

record state =
  json :: string
  nodes :: "node list"
  selectedNode :: "node option"
  editing :: bool
  draft :: string
  error :: "js_error option"

definition setJson :: "(string \<Rightarrow> node list) \<Rightarrow> string \<Rightarrow> state \<Rightarrow> state" where
  "setJson rebuild text st = st\<lparr>json := text, nodes := rebuild text\<rparr>"

text \<open>
  The end of the \<^verbatim>\<open>try\<close> block from the new document on: store its text, select the
  node of the edited path again, leave the editing mode; an exception on the way goes
  to \<^verbatim>\<open>setError\<close>. The result is \<open>None\<close> when the new document depends on a conversion
  that the model does not compute.
\<close>

definition commit :: "(string \<Rightarrow> node list) \<Rightarrow> state \<Rightarrow> js_error + json \<Rightarrow> state option" where
  "commit rebuild st result =
     (case result of
        Inl e \<Rightarrow> if e = NumberConversion then None else Some (st\<lparr>error := Some e\<rparr>)
      | Inr newObj \<Rightarrow>
          (let st1 = setJson rebuild (stringify [] newObj) st;
               target = (case selectedNode st of None \<Rightarrow> None | Some n \<Rightarrow> node_path n);
               st2 = (case relocate (nodes st1) target of
                        Some found \<Rightarrow> st1\<lparr>selectedNode := Some found\<rparr>
                      | None \<Rightarrow> st1)
           in Some (st2\<lparr>editing := False, error := None\<rparr>)))"

text \<open>
  Property access is modelled on the own properties of the values. A path with one of
  the keys below can lead the source from a value to a built-in prototype object, or to
  an accessor of a built-in function: there the model says nothing.
\<close>

definition prototype_keys :: "string list" where
  "prototype_keys = [''__proto__'', ''prototype'', ''caller'', ''arguments'']"

fun own_segment :: "seg \<Rightarrow> bool" where
  "own_segment (Idx n) = True"
| "own_segment (Key k) = (k \<notin> set prototype_keys)"

definition own_path :: "node option \<Rightarrow> bool" where
  "own_path nodeData =
     (case nodeData of None \<Rightarrow> True | Some n \<Rightarrow> list_all own_segment (path_or_empty (node_path n)))"

text \<open>
  \<^verbatim>\<open>handleSave\<close>. The edited text is parsed first, and its \<^verbatim>\<open>SyntaxError\<close> goes to the
  \<^verbatim>\<open>catch\<close> at the end, which only sets the error. The stored text is parsed next; when
  that raises, \<^verbatim>\<open>originalObj = parsed\<close>, and the branches run with the edited value as
  document and as value. The result is \<open>None\<close> for a save that the model does not
  describe: an edited or stored text whose value is outside the model, and a path into
  the built-in prototypes.
\<close>

definition handleSave :: "(string \<Rightarrow> node list) \<Rightarrow> state \<Rightarrow> state option" where
  "handleSave rebuild st =
     (case JSON_parse (draft st) of
        Bad \<Rightarrow> Some (st\<lparr>error := Some SyntaxError\<rparr>)
      | Beyond \<Rightarrow> None
      | Got parsed \<Rightarrow>
          if own_path (selectedNode st) then
            (case JSON_parse (json st) of
               Got originalObj \<Rightarrow> commit rebuild st (mutate originalObj (selectedNode st) parsed)
             | Bad \<Rightarrow> commit rebuild st (mutate_shared parsed (selectedNode st))
             | Beyond \<Rightarrow> None)
          else None)"

text \<open>A state in the editing mode, for the examples.\<close>

definition editing_state :: "string \<Rightarrow> string \<Rightarrow> node option \<Rightarrow> state" where
  "editing_state stored text n =
     \<lparr>json = stored, nodes = [], selectedNode = n, editing = True, draft = text, error = None\<rparr>"

section \<open>Properties of the path formatter\<close>

lemma join_brackets:
  "xs \<noteq> [] \<Longrightarrow> ''['' @ join '']['' xs @ '']'' = concat (map (\<lambda>x. ''['' @ x @ '']'') xs)"
  by (induction "'']['' :: string" xs rule: join.induct) auto

lemma show_nat_0: "show_nat 0 = ''0''"
  by (simp add: show_nat.simps digit_char_def)

section \<open>Properties of property access and of the mutator\<close>

lemma map_of_obj_update:
  "map_of (obj_update kvs k v) k' = (if k' = k \<and> map_of kvs k \<noteq> None then Some v else map_of kvs k')"
  by (induction kvs) auto

lemma map_of_obj_insert:
  "map_of kvs k = None \<Longrightarrow> map_of (obj_insert kvs k v) k' = (if k' = k then Some v else map_of kvs k')"
  by (induction kvs) (auto split: if_splits)

lemma map_of_obj_put: "map_of (obj_put kvs k v) = (map_of kvs)(k \<mapsto> v)"
  by (rule ext) (auto simp: obj_put_def map_of_obj_update map_of_obj_insert split: option.splits)

lemma obj_update_update: "obj_update (obj_update kvs k a) k b = obj_update kvs k b"
  by (induction kvs) auto

lemma obj_update_insert: "map_of kvs k = None \<Longrightarrow> obj_update (obj_insert kvs k a) k b = obj_insert kvs k b"
  by (induction kvs) (auto split: if_splits)

lemma obj_put_put: "obj_put (obj_put kvs k a) k b = obj_put kvs k b"
proof (cases "map_of kvs k")
  case None
  then have "map_of (obj_insert kvs k a) k = Some a" by (simp add: map_of_obj_insert)
  with None show ?thesis by (simp add: obj_put_def obj_update_insert)
next
  case (Some old)
  then have "map_of (obj_update kvs k a) k = Some a" by (simp add: map_of_obj_update)
  with Some show ?thesis by (simp add: obj_put_def obj_update_update)
qed

lemma arr_put_put: "arr_put (arr_put xs i a) i b = arr_put xs i b"
  by (auto simp: arr_put_def nth_append list_update_append)

lemma length_arr_put: "i < length (arr_put xs i v)"
  by (simp add: arr_put_def)

lemma nth_arr_put: "arr_put xs i v ! i = v"
  by (simp add: arr_put_def nth_append)

lemma js_put_put:
  assumes "js_put t k a = Inr t'" and "is_fresh a"
  shows "js_put t' k b = js_put t k b"
proof (cases t)
  case (JObj kvs)
  with assms show ?thesis
    by (auto simp: map_of_obj_put obj_put_put split: if_splits)
next
  case (JArr xs)
  with assms show ?thesis
    by (auto simp: arr_put_put is_fresh_def split: option.splits if_splits)
qed (use assms in auto)

lemma js_put_get:
  assumes "plain_write t k"
  shows "\<exists>r. js_put t k v = Inr r \<and> js_get r k = Some v \<and> is_object (Some r) \<and> r \<noteq> JNull"
proof (cases t)
  case (JObj kvs)
  with assms show ?thesis by (auto simp: map_of_obj_put split: if_splits)
next
  case (JArr xs)
  with assms show ?thesis by (auto simp: length_arr_put nth_arr_put)
qed (use assms in auto)

lemma plain_write_not_null: "plain_write t k \<Longrightarrow> read_prop t k = Inr (js_get t k)"
  by (cases t) (auto simp: read_prop_def)

lemma keeps_child_child_at: "keeps_child seg (js_get t (prop_key seg)) \<Longrightarrow> the (js_get t (prop_key seg)) = child_at t seg"
  by (cases seg; cases "js_get t (prop_key seg)") (auto simp: child_at_def)

lemma not_keeps_child_at: "\<not> keeps_child seg (js_get t (prop_key seg)) \<Longrightarrow> child_at t seg = fresh_container seg"
  by (cases "js_get t (prop_key seg)") (auto simp: child_at_def)

lemma is_fresh_container: "is_fresh (fresh_container seg)"
  by (cases seg) (auto simp: is_fresh_def)

lemma set_in_step:
  assumes pw: "plain_write t (prop_key seg)" and ne: "rest \<noteq> []"
  shows "set_in t (seg # rest) v =
     (case set_in (child_at t seg) rest v of Inl e \<Rightarrow> Inl e | Inr c' \<Rightarrow> js_put t (prop_key seg) c')"
proof -
  obtain s' rest' where rest: "rest = s' # rest'" using ne by (cases rest) auto
  show ?thesis
  proof (cases "keeps_child seg (js_get t (prop_key seg))")
    case True
    then show ?thesis
      using pw by (simp add: rest set_in.simps plain_write_not_null keeps_child_child_at)
  next
    case False
    from js_put_get [OF pw, of "fresh_container seg"] obtain t' where
      t': "js_put t (prop_key seg) (fresh_container seg) = Inr t'" by blast
    have "js_put t' (prop_key seg) c' = js_put t (prop_key seg) c'" for c'
      using js_put_put [OF t' is_fresh_container] .
    with False t' show ?thesis
      using pw by (simp add: rest set_in.simps plain_write_not_null not_keeps_child_at split: sum.splits)
  qed
qed

lemma nav_step: "r \<noteq> JNull \<Longrightarrow> js_get r (prop_key seg) = Some c \<Longrightarrow> nav r (seg # rest) = nav c rest"
  by simp

lemma set_in_nav:
  "plain_path t p \<Longrightarrow> p \<noteq> [] \<Longrightarrow> \<exists>r. set_in t p v = Inr r \<and> nav r p = Some v \<and> is_object (Some r)"
proof (induction t p rule: plain_path.induct)
  case (1 target)
  then show ?case by simp
next
  case (2 target final)
  then have "plain_write target (prop_key final)" by simp
  from js_put_get [OF this, of v] obtain r where r: "js_put target (prop_key final) v = Inr r"
    "js_get r (prop_key final) = Some v" "is_object (Some r)" "r \<noteq> JNull" by blast
  have "set_in target [final] v = Inr r" using r(1) by (simp add: set_in.simps)
  moreover have "nav r [final] = Some v" using nav_step [OF r(4) r(2), of "[]"] by simp
  ultimately show ?case using r(3) by blast
next
  case (3 target seg s' rest')
  let ?rest = "s' # rest'"
  from "3.prems" have pw: "plain_write target (prop_key seg)" and pp: "plain_path (child_at target seg) ?rest"
    by simp_all
  from "3.IH" [OF pp] obtain c' where c': "set_in (child_at target seg) ?rest v = Inr c'"
    and nv: "nav c' ?rest = Some v" by blast
  from js_put_get [OF pw, of c'] obtain r where r: "js_put target (prop_key seg) c' = Inr r"
    "js_get r (prop_key seg) = Some c'" "is_object (Some r)" "r \<noteq> JNull" by blast
  have "set_in target (seg # ?rest) v = Inr r"
    using set_in_step [OF pw, of ?rest v] c' r(1) by simp
  moreover have "nav r (seg # ?rest) = Some v" using nav_step [OF r(4) r(2)] nv by simp
  ultimately show ?case using r(3) by blast
qed


subsection \<open>Evaluating the mutator on given documents\<close>

lemmas eval_defs = mutate_def merge_at_path_def setValueAtPath_def singular_def has_key_def
  set_in.simps read_prop_def obj_put_def goes_before_def array_index_def is_digit_def read_nat_def
  digit_val_def arr_put_def show_nat.simps digit_char_def child_at_def leaf_node_def object_node_def

lemma singular_leaf_node: "singular (leaf_node p)" by (simp add: eval_defs)
lemma singular_object_node: "\<not> singular (object_node p)" by (simp add: eval_defs)

lemma child_at_cases:
  "child_at doc seg =
     (case seg of
        Idx n \<Rightarrow> (case js_get doc (show_nat n) of Some (JArr xs) \<Rightarrow> JArr xs | _ \<Rightarrow> JArr [])
      | Key k \<Rightarrow> (case js_get doc k of
                    Some (JArr xs) \<Rightarrow> JArr xs | Some (JObj kvs) \<Rightarrow> JObj kvs | _ \<Rightarrow> JObj []))"
  by (simp add: child_at_def split: seg.splits option.splits json.splits)

lemma merge_example:
  "mutate (JObj [(''a'', JObj [(''b'', JNum 1), (''c'', JNum 2)])])
         (Some (object_node (Some [Key ''a''])))
         (JObj [(''b'', JNum 5)])
     = Inr (JObj [(''a'', JObj [(''b'', JNum 5), (''c'', JNum 2)])])"
  by (simp add: eval_defs)

section \<open>The claims about the mutator\<close>

text \<open>
  C3, as the code has it. An edit of a node with a single unkeyed row at the empty (or
  absent) path returns the parsed edited value as the whole new document, and so does
  \<^verbatim>\<open>setValueAtPath\<close> on the empty path. An edit of any other node at the empty path
  does so only when the stored document is neither an object nor an array; when it is
  one, the keys of the edited value are merged into the stored document, which stays.
  A node without a path, and an absent node, make the edited value the document.
\<close>

theorem mutate_empty_path:
  "(singular n \<and> (node_path n = None \<or> node_path n = Some []) \<longrightarrow> mutate doc (Some n) parsed = Inr parsed)
   \<and> (\<not> singular n \<and> node_path n = None \<longrightarrow> mutate doc (Some n) parsed = Inr parsed)
   \<and> (\<not> singular n \<and> node_path n = Some [] \<and> \<not> is_object (Some doc)
        \<longrightarrow> mutate doc (Some n) parsed = Inr parsed)
   \<and> (\<not> singular n \<and> node_path n = Some [] \<and> is_object (Some doc)
        \<longrightarrow> mutate doc (Some n) parsed =
            (case own_keys parsed of Inl e \<Rightarrow> Inl e | Inr ks \<Rightarrow> merge_keys doc parsed ks))
   \<and> mutate doc None parsed = Inr parsed
   \<and> setValueAtPath doc (Some []) parsed = Inr parsed
   \<and> setValueAtPath doc None parsed = Inr parsed"
  by (auto simp: mutate_def merge_at_path_def setValueAtPath_def split: sum.splits)

theorem mutate_empty_path_witness:
  "singular (leaf_node (Some [])) \<and> node_path (leaf_node (Some [])) = Some []
   \<and> mutate (JObj [(''a'', JNum 1)]) (Some (leaf_node (Some []))) (JNum 7) = Inr (JNum 7)
   \<and> \<not> singular (object_node (Some [])) \<and> node_path (object_node (Some [])) = Some []
   \<and> \<not> is_object (Some (JNum 3))
   \<and> mutate (JNum 3) (Some (object_node (Some []))) (JObj [(''b'', JNum 5)]) = Inr (JObj [(''b'', JNum 5)])
   \<and> node_path (object_node None) = None
   \<and> mutate (JNum 3) (Some (object_node None)) (JNum 7) = Inr (JNum 7)
   \<and> is_object (Some (JObj [(''b'', JNum 1), (''c'', JNum 2)]))
   \<and> mutate (JObj [(''b'', JNum 1), (''c'', JNum 2)]) (Some (object_node (Some []))) (JObj [(''b'', JNum 5)])
       = Inr (JObj [(''b'', JNum 5), (''c'', JNum 2)])"
proof -
  have s1: "singular (leaf_node (Some []))" by (rule singular_leaf_node)
  have p1: "node_path (leaf_node (Some [])) = Some []" by (simp add: leaf_node_def)
  have s2: "\<not> singular (object_node (Some []))" by (rule singular_object_node)
  have p2: "node_path (object_node (Some [])) = Some []" by (simp add: object_node_def)
  have s3: "\<not> singular (object_node None)" by (rule singular_object_node)
  have p3: "node_path (object_node None) = None" by (simp add: object_node_def)
  have o1: "\<not> is_object (Some (JNum 3))" by simp
  have o2: "is_object (Some (JObj [(''b'', JNum 1), (''c'', JNum 2)]))" by simp
  have a: "mutate (JObj [(''a'', JNum 1)]) (Some (leaf_node (Some []))) (JNum 7) = Inr (JNum 7)"
    using mutate_empty_path [of "leaf_node (Some [])" "JObj [(''a'', JNum 1)]" "JNum 7"] s1 p1
    by blast
  have b: "mutate (JNum 3) (Some (object_node (Some []))) (JObj [(''b'', JNum 5)]) = Inr (JObj [(''b'', JNum 5)])"
    using mutate_empty_path [of "object_node (Some [])" "JNum 3" "JObj [(''b'', JNum 5)]"] s2 p2 o1
    by blast
  have c: "mutate (JNum 3) (Some (object_node None)) (JNum 7) = Inr (JNum 7)"
    using mutate_empty_path [of "object_node None" "JNum 3" "JNum 7"] s3 p3
    by blast
  have "mutate (JObj [(''b'', JNum 1), (''c'', JNum 2)]) (Some (object_node (Some []))) (JObj [(''b'', JNum 5)])
      = (case own_keys (JObj [(''b'', JNum 5)]) of Inl e \<Rightarrow> Inl e
         | Inr ks \<Rightarrow> merge_keys (JObj [(''b'', JNum 1), (''c'', JNum 2)]) (JObj [(''b'', JNum 5)]) ks)"
    using mutate_empty_path [of "object_node (Some [])" "JObj [(''b'', JNum 1), (''c'', JNum 2)]" "JObj [(''b'', JNum 5)]"]
      s2 p2 o2 by blast
  then have d: "mutate (JObj [(''b'', JNum 1), (''c'', JNum 2)]) (Some (object_node (Some []))) (JObj [(''b'', JNum 5)])
      = Inr (JObj [(''b'', JNum 5), (''c'', JNum 2)])"
    by (simp add: obj_put_def)
  from s1 p1 s2 p2 p3 o1 o2 a b c d show ?thesis by (simp only: simp_thms)
qed

text \<open>
  C3 as stated fails for a node with keyed rows at the empty path: the document
  \<open>{"b":1,"c":2}\<close> edited with \<open>{"b":5}\<close> becomes \<open>{"b":5,"c":2}\<close>, not the edited value.
\<close>

theorem mutate_empty_path_counterexample:
  "\<not> singular (object_node (Some [])) \<and> node_path (object_node (Some [])) = Some []
   \<and> mutate (JObj [(''b'', JNum 1), (''c'', JNum 2)]) (Some (object_node (Some []))) (JObj [(''b'', JNum 5)])
       = Inr (JObj [(''b'', JNum 5), (''c'', JNum 2)])
   \<and> mutate (JObj [(''b'', JNum 1), (''c'', JNum 2)]) (Some (object_node (Some []))) (JObj [(''b'', JNum 5)])
       \<noteq> Inr (JObj [(''b'', JNum 5)])"
  by (simp add: eval_defs)

text \<open>
  C5, as the code has it. For a path of two or more segments whose assignments show in
  the document, the first segment is handled so: the walk continues in the value at
  the segment when a number segment finds an array there, or a string segment finds an
  object or an array there, and in a new empty array (number segment) or a new empty
  object (string segment) otherwise; the rest of the path is set inside that container,
  the container is the segment's value in the result, and the edited value is found at
  the path. Setting \<open>1\<close> at \<open>["x","y"]\<close> in \<open>{}\<close> gives \<open>{"x":{"y":1}}\<close>.
\<close>

theorem setValueAtPath_vivifies:
  "(plain_path doc (seg # rest) \<and> rest \<noteq> [] \<longrightarrow>
      (\<exists>c' r. set_in (child_at doc seg) rest v = Inr c'
          \<and> setValueAtPath doc (Some (seg # rest)) v = Inr r
          \<and> js_put doc (prop_key seg) c' = Inr r
          \<and> js_get r (prop_key seg) = Some c'
          \<and> nav r (seg # rest) = Some v))
   \<and> child_at doc seg =
       (case seg of
          Idx n \<Rightarrow> (case js_get doc (show_nat n) of Some (JArr xs) \<Rightarrow> JArr xs | _ \<Rightarrow> JArr [])
        | Key k \<Rightarrow> (case js_get doc k of
                      Some (JArr xs) \<Rightarrow> JArr xs | Some (JObj kvs) \<Rightarrow> JObj kvs | _ \<Rightarrow> JObj []))
   \<and> setValueAtPath (JObj []) (Some [Key ''x'', Key ''y'']) (JNum 1)
       = Inr (JObj [(''x'', JObj [(''y'', JNum 1)])])"
proof -
  have "\<exists>c' r. set_in (child_at doc seg) rest v = Inr c'
          \<and> setValueAtPath doc (Some (seg # rest)) v = Inr r
          \<and> js_put doc (prop_key seg) c' = Inr r
          \<and> js_get r (prop_key seg) = Some c'
          \<and> nav r (seg # rest) = Some v"
    if pp: "plain_path doc (seg # rest)" and ne: "rest \<noteq> []"
  proof -
    obtain s' rest' where rest: "rest = s' # rest'" using ne by (cases rest) auto
    from pp have pw: "plain_write doc (prop_key seg)" and pc: "plain_path (child_at doc seg) rest"
      by (simp_all add: rest)
    from set_in_nav [OF pc ne, of v] obtain c' where c': "set_in (child_at doc seg) rest v = Inr c'"
      and nv: "nav c' rest = Some v" by blast
    from js_put_get [OF pw, of c'] obtain r where r: "js_put doc (prop_key seg) c' = Inr r"
      "js_get r (prop_key seg) = Some c'" "r \<noteq> JNull" by blast
    have "set_in doc (seg # rest) v = Inr r"
      using set_in_step [OF pw ne, of v] c' r(1) by simp
    then have "setValueAtPath doc (Some (seg # rest)) v = Inr r"
      by (simp add: setValueAtPath_def)
    moreover have "nav r (seg # rest) = Some v"
      using nav_step [OF r(3) r(2)] nv by simp
    ultimately show ?thesis using c' r by blast
  qed
  moreover have "setValueAtPath (JObj []) (Some [Key ''x'', Key ''y'']) (JNum 1)
       = Inr (JObj [(''x'', JObj [(''y'', JNum 1)])])"
    by (simp add: eval_defs)
  ultimately show ?thesis using child_at_cases by blast
qed

theorem setValueAtPath_vivifies_witness:
  "plain_path (JArr [JNum 3]) [Idx 0, Idx 1]
   \<and> child_at (JArr [JNum 3]) (Idx 0) = JArr []
   \<and> (\<exists>c' r. set_in (JArr []) [Idx 1] (JNum 7) = Inr c'
          \<and> setValueAtPath (JArr [JNum 3]) (Some [Idx 0, Idx 1]) (JNum 7) = Inr r
          \<and> js_put (JArr [JNum 3]) (prop_key (Idx 0)) c' = Inr r
          \<and> js_get r (prop_key (Idx 0)) = Some c'
          \<and> nav r [Idx 0, Idx 1] = Some (JNum 7))"
proof -
  have pp: "plain_path (JArr [JNum 3]) [Idx 0, Idx 1]"
    by (simp add: eval_defs)
  have ch: "child_at (JArr [JNum 3]) (Idx 0) = JArr []"
    by (simp add: eval_defs)
  from setValueAtPath_vivifies [of "JArr [JNum 3]" "Idx 0" "[Idx 1]" "JNum 7"] pp
  have "\<exists>c' r. set_in (child_at (JArr [JNum 3]) (Idx 0)) [Idx 1] (JNum 7) = Inr c'
          \<and> setValueAtPath (JArr [JNum 3]) (Some [Idx 0, Idx 1]) (JNum 7) = Inr r
          \<and> js_put (JArr [JNum 3]) (prop_key (Idx 0)) c' = Inr r
          \<and> js_get r (prop_key (Idx 0)) = Some c'
          \<and> nav r [Idx 0, Idx 1] = Some (JNum 7)"
    by blast
  with pp ch show ?thesis by (simp only: simp_thms)
qed

text \<open>
  C5 as stated fails in two places. At a string segment whose value is an array, which
  is not an object, no empty object is made: the array is kept and the walk goes on in
  it. And on a document that is a number a path of two keys makes no container at all:
  the first assignment raises.
\<close>

theorem setValueAtPath_vivifies_counterexample:
  "js_get (JObj [(''a'', JArr [JNum 1, JNum 2])]) ''a'' = Some (JArr [JNum 1, JNum 2])
   \<and> setValueAtPath (JObj [(''a'', JArr [JNum 1, JNum 2])]) (Some [Key ''a'', Idx 0]) (JNum 5)
       = Inr (JObj [(''a'', JArr [JNum 5, JNum 2])])
   \<and> setValueAtPath (JNum 5) (Some [Key ''x'', Key ''y'']) (JNum 1) = Inl TypeError"
  by (simp add: eval_defs)




text \<open>
  C2 at a path through an array element. The object \<open>{"d":1,"e":2}\<close> is at
  \<open>["a",0,"c"]\<close> in \<open>{"a":[{"c":{"d":1,"e":2}}]}\<close>. The edit \<open>{"d":5}\<close> merges into it,
  and \<^verbatim>\<open>setValueAtPath\<close> then replaces the array element, an object, by an empty array,
  because the segment \<open>0\<close> is a number: the document becomes \<open>{"a":[[]]}\<close>.
\<close>

theorem merge_lost_under_array_element:
  "nav (JObj [(''a'', JArr [JObj [(''c'', JObj [(''d'', JNum 1), (''e'', JNum 2)])]])])
       [Key ''a'', Idx 0, Key ''c'']
     = Some (JObj [(''d'', JNum 1), (''e'', JNum 2)])
   \<and> mutate (JObj [(''a'', JArr [JObj [(''c'', JObj [(''d'', JNum 1), (''e'', JNum 2)])]])])
         (Some (object_node (Some [Key ''a'', Idx 0, Key ''c''])))
         (JObj [(''d'', JNum 5)])
     = Inr (JObj [(''a'', JArr [JArr []])])"
  by (simp add: eval_defs)

section \<open>Numbers, strings and flat objects read back\<close>

lemma cons_opt_Some [simp]: "cons_opt (Some a) (Some as) = Some (a # as)"
  by (simp add: cons_opt_def)

lemma pair_opt_Some [simp]: "pair_opt (Some a) (Some b) = Some (a, b)"
  by (simp add: pair_opt_def)

lemma is_digit_digit_char: "d < 10 \<Longrightarrow> is_digit (digit_char d)"
proof -
  assume "d < 10"
  then have "d \<in> {0,1,2,3,4,5,6,7,8,9}" by auto
  then show ?thesis by (auto simp: is_digit_def digit_char_def)
qed

lemma digit_val_digit_char: "d < 10 \<Longrightarrow> digit_val (digit_char d) = d"
proof -
  assume "d < 10"
  then have "d \<in> {0,1,2,3,4,5,6,7,8,9}" by auto
  then show ?thesis by (auto simp: digit_val_def digit_char_def)
qed

lemma digit_char_zero: "d < 10 \<Longrightarrow> digit_char d = CHR ''0'' \<longleftrightarrow> d = 0"
proof -
  assume "d < 10"
  then have "d \<in> {0,1,2,3,4,5,6,7,8,9}" by auto
  then show ?thesis by (auto simp: digit_char_def)
qed

lemma show_nat_digits: "list_all is_digit (show_nat n)"
proof (induction n rule: show_nat.induct)
  case (1 n)
  show ?case
  proof (cases "n < 10")
    case True
    then show ?thesis by (subst show_nat.simps) (simp add: is_digit_digit_char)
  next
    case False
    with 1 show ?thesis by (subst show_nat.simps) (simp add: is_digit_digit_char)
  qed
qed

lemma show_nat_nonempty: "show_nat n \<noteq> []"
  by (subst show_nat.simps) simp

lemma read_nat_snoc: "read_nat (s @ [c]) = 10 * read_nat s + digit_val c"
  by (simp add: read_nat_def)

lemma read_nat_show_nat: "read_nat (show_nat n) = n"
proof (induction n rule: show_nat.induct)
  case (1 n)
  show ?case
  proof (cases "n < 10")
    case True
    then show ?thesis by (subst show_nat.simps) (simp add: read_nat_def digit_val_digit_char)
  next
    case False
    with 1 show ?thesis by (subst show_nat.simps) (simp add: read_nat_snoc digit_val_digit_char)
  qed
qed

lemma hd_show_nat: "0 < n \<Longrightarrow> hd (show_nat n) \<noteq> CHR ''0''"
proof (induction n rule: show_nat.induct)
  case (1 n)
  show ?case
  proof (cases "n < 10")
    case True
    with 1(2) show ?thesis by (subst show_nat.simps) (simp add: digit_char_zero)
  next
    case False
    then have "0 < n div 10" by simp
    with 1(1) False have "hd (show_nat (n div 10)) \<noteq> CHR ''0''" by simp
    with False show ?thesis by (subst show_nat.simps) (simp add: show_nat_nonempty)
  qed
qed

lemma show_nat_inj: "show_nat m = show_nat n \<Longrightarrow> m = n"
  by (metis read_nat_show_nat)

text \<open>
  C9. The path formatter renders a path as \<open>$\<close> followed by one bracketed group per
  segment, a string segment between double quotes and a number segment bare, as the
  decimal digits of the number; the empty
  path and the absent path render as \<open>$\<close>; the path \<open>["a", 0, "b"]\<close> renders as
  \<open>$["a"][0]["b"]\<close>.
\<close>

theorem jsonPathToString_format:
  "jsonPathToString (Some p) = CHR ''$'' # concat (map (\<lambda>s. ''['' @ path_segment s @ '']'') p)
   \<and> path_segment (Key k) = [CHR 0x22] @ k @ [CHR 0x22]
   \<and> path_segment (Idx n) = show_nat n
   \<and> list_all is_digit (path_segment (Idx n)) \<and> read_nat (path_segment (Idx n)) = n
   \<and> jsonPathToString (Some []) = ''$''
   \<and> jsonPathToString None = ''$''
   \<and> jsonPathToString (Some [Key ''a'', Idx 0, Key ''b'']) =
     [CHR ''$'', CHR ''['', CHR 0x22, CHR ''a'', CHR 0x22, CHR '']'', CHR ''['', CHR ''0'', CHR '']'',
      CHR ''['', CHR 0x22, CHR ''b'', CHR 0x22, CHR '']'']"
proof -
  have "jsonPathToString (Some p) = CHR ''$'' # concat (map (\<lambda>s. ''['' @ path_segment s @ '']'') p)"
  proof (cases p)
    case Nil
    then show ?thesis by (simp add: jsonPathToString_def)
  next
    case (Cons s ss)
    then have "map path_segment p \<noteq> []" by simp
    from join_brackets [OF this] Cons show ?thesis
      by (simp add: jsonPathToString_def comp_def)
  qed
  then show ?thesis
    by (simp add: jsonPathToString_def show_nat_0 show_nat_digits read_nat_show_nat)
qed

lemma takeWhile_digits: "list_all is_digit ds \<Longrightarrow> ends_number r \<Longrightarrow> takeWhile is_digit (ds @ r) = ds"
  by (induction ds) (auto simp: ends_number_def split: list.splits)

lemma dropWhile_digits: "list_all is_digit ds \<Longrightarrow> ends_number r \<Longrightarrow> dropWhile is_digit (ds @ r) = r"
  by (induction ds) (auto simp: ends_number_def split: list.splits)

lemma parse_digits_show_nat:
  assumes "ends_number r"
  shows "parse_digits (show_nat n @ r) = Some (n, r)"
proof (cases "n = 0")
  case True
  then show ?thesis using assms
    by (simp add: show_nat_0 parse_digits_def is_digit_def)
next
  case False
  then have "hd (show_nat n) \<noteq> CHR ''0''" using hd_show_nat by simp
  then show ?thesis using assms
    by (simp add: parse_digits_def takeWhile_digits dropWhile_digits show_nat_digits
        show_nat_nonempty read_nat_show_nat)
qed

lemma number_rest_ends:
  assumes "ends_number r"
  shows "number_rest i r = Some (Some (JNum i), r)"
  using assms
  by (cases r) (auto simp: number_rest_def parse_fraction_def parse_exponent_def ends_number_def)

lemma parse_number_show_int:
  assumes "ends_number r"
  shows "parse_number (show_int i @ r) = Some (Some (JNum i), r)"
proof (cases "i < 0")
  case True
  then show ?thesis using assms
    by (simp add: parse_number_def show_int_def parse_digits_show_nat number_rest_ends)
next
  case False
  obtain c cs where cs: "show_nat (nat i) = c # cs" using show_nat_nonempty by (cases "show_nat (nat i)") auto
  have "is_digit c" using show_nat_digits [of "nat i"] cs by simp
  then have "c \<noteq> CHR ''-''" by (auto simp: is_digit_def)
  then show ?thesis using assms False parse_digits_show_nat [OF assms, of "nat i"] cs
    by (simp add: parse_number_def show_int_def number_rest_ends)
qed

lemma hex_char_props: "d < 16 \<Longrightarrow> is_hex (hex_char d) \<and> hex_val (hex_char d) = d"
proof -
  assume "d < 16"
  then have "d \<in> {0,1,2,3,4,5,6,7,8,9,10,11,12,13,14,15}" by (simp; arith)
  then show ?thesis by (auto simp: is_hex_def hex_val_def hex_char_def is_digit_def)
qed

lemma parse_string_u:
  assumes "(of_char c :: nat) < 32"
  shows "parse_string (CHR 0x5C # CHR ''u'' # CHR ''0'' # CHR ''0'' # hex_char (of_char c div 16)
            # hex_char (of_char c mod 16) # rest)
         = (case parse_string rest of None \<Rightarrow> None | Some (str, r) \<Rightarrow> Some (cons_opt (Some c) str, r))"
proof -
  let ?n = "of_char c :: nat"
  have a: "is_hex (hex_char (?n div 16))" "hex_val (hex_char (?n div 16)) = ?n div 16"
    using hex_char_props [of "?n div 16"] assms by auto
  have b: "is_hex (hex_char (?n mod 16))" "hex_val (hex_char (?n mod 16)) = ?n mod 16"
    using hex_char_props [of "?n mod 16"] by auto
  have z: "is_hex CHR ''0''" "hex_val CHR ''0'' = 0"
    by (simp_all add: is_hex_def hex_val_def is_digit_def)
  have "char_of (16 * (?n div 16) + ?n mod 16) = c" by simp
  then show ?thesis using a b z by (simp add: escaped_char_def split: option.splits)
qed

lemma parse_string_escape_char:
  "parse_string (escape_char c @ rest)
     = (case parse_string rest of None \<Rightarrow> None | Some (str, r) \<Rightarrow> Some (cons_opt (Some c) str, r))"
proof -
  consider (b) "c = CHR 0x08" | (t) "c = CHR 0x09" | (n) "c = CHR 0x0A" | (f) "c = CHR 0x0C"
    | (r) "c = CHR 0x0D" | (q) "c = CHR 0x22" | (s) "c = CHR 0x5C"
    | (u) "c \<notin> {CHR 0x08, CHR 0x09, CHR 0x0A, CHR 0x0C, CHR 0x0D, CHR 0x22, CHR 0x5C}" "(of_char c :: nat) < 32"
    | (o) "c \<notin> {CHR 0x08, CHR 0x09, CHR 0x0A, CHR 0x0C, CHR 0x0D, CHR 0x22, CHR 0x5C}" "\<not> (of_char c :: nat) < 32"
    by blast
  then show ?thesis
  proof cases
    case u
    then show ?thesis using parse_string_u [OF u(2), of rest] by (simp add: escape_char_def)
  next
    case o
    then show ?thesis by (simp add: escape_char_def split: option.splits)
  qed (simp_all add: escape_char_def unescape_def split: option.splits)
qed

lemma parse_string_escaped:
  "parse_string (concat (map escape_char k) @ CHR 0x22 # r) = Some (Some k, r)"
  by (induction k) (simp_all add: parse_string_escape_char)

lemma parse_string_quote: "parse_string (tl (quote k) @ r) = Some (Some k, r)"
  using parse_string_escaped [of k r] by (simp add: quote_def)

lemma show_int_hd: "\<exists>c cs. show_int i = c # cs \<and> (c = CHR ''-'' \<or> is_digit c)"
proof (cases "i < 0")
  case True
  then show ?thesis by (simp add: show_int_def)
next
  case False
  obtain c cs where cs: "show_nat (nat i) = c # cs" using show_nat_nonempty by (cases "show_nat (nat i)") auto
  have "is_digit c" using show_nat_digits [of "nat i"] cs by simp
  with cs False show ?thesis by (simp add: show_int_def)
qed

lemma parse_value_number:
  assumes "ends_number r"
  shows "parse_value (show_int i @ r) = Some (Some (JNum i), r)"
proof -
  obtain c cs where c: "show_int i = c # cs" "c = CHR ''-'' \<or> is_digit c"
    using show_int_hd by blast
  then have "c \<noteq> CHR 0x22 \<and> c \<noteq> CHR ''['' \<and> c \<noteq> CHR ''{''"
    by (auto simp: is_digit_def)
  then have "parse_value (c # cs @ r) = parse_number (c # cs @ r)"
    using c(2) by (subst parse_value.simps) simp
  then show ?thesis using parse_number_show_int [OF assms, of i] c(1) by simp
qed

lemma parse_value_scalar:
  assumes "is_scalar v" and "ends_number r"
  shows "parse_value (stringify ind v @ r) = Some (Some v, r)"
proof (cases v)
  case JNull
  then show ?thesis
    by (subst parse_value.simps) (simp add: parse_literal_def is_digit_def)
next
  case (JBool b)
  then show ?thesis
    by (subst parse_value.simps) (simp add: parse_literal_def is_digit_def)
next
  case (JNum i)
  then show ?thesis using parse_value_number [OF assms(2)] by simp
next
  case (JStr k)
  have "parse_value (quote k @ r) = Some (Some (JStr k), r)"
    using parse_string_escaped [of k r]
    by (subst parse_value.simps) (simp add: quote_def)
  with JStr show ?thesis by simp
qed (use assms in auto)

lemma stringify_scalar_hd:
  assumes "is_scalar v"
  shows "\<exists>c cs. stringify ind v = c # cs \<and> \<not> is_ws c"
proof (cases v)
  case (JNum i)
  obtain c cs where c: "show_int i = c # cs" "c = CHR ''-'' \<or> is_digit c"
    using show_int_hd by blast
  then have "\<not> is_ws c" by (auto simp: is_digit_def is_ws_def)
  with c JNum show ?thesis by simp
qed (use assms in \<open>auto simp: is_ws_def quote_def\<close>)

lemma skip_ws_non_ws: "\<not> is_ws c \<Longrightarrow> skip_ws (c # cs) = c # cs"
  by (simp add: skip_ws_def)

lemma skip_ws_scalar:
  assumes "is_scalar v"
  shows "skip_ws (stringify ind v @ r) = stringify ind v @ r"
proof -
  obtain c cs where "stringify ind v = c # cs" "\<not> is_ws c"
    using stringify_scalar_hd [OF assms] by blast
  then show ?thesis by (simp add: skip_ws_non_ws)
qed

lemma length_quote: "0 < length (quote k)"
  by (simp add: quote_def)

lemma parse_members_step:
  assumes "is_scalar v" and "ends_number rest"
  shows "parse_members (quote k @ '': '' @ stringify ind v @ rest) =
     (case skip_ws rest of
        [] \<Rightarrow> None
      | e # r4 \<Rightarrow>
          if e = CHR ''}'' then Some (Some [(k, v)], r4)
          else if e = CHR '','' then
            (case parse_members (skip_ws r4) of
               None \<Rightarrow> None
             | Some (kvs, rest') \<Rightarrow> Some (cons_opt (Some (k, v)) kvs, rest'))
          else None)"
proof -
  let ?sv = "stringify ind v @ rest"
  have ps: "parse_string (tl (quote k) @ CHR '':'' # CHR '' '' # ?sv) = Some (Some k, CHR '':'' # CHR '' '' # ?sv)"
    using parse_string_quote [of k "CHR '':'' # CHR '' '' # ?sv"] by simp
  have sk1: "skip_ws (CHR '':'' # CHR '' '' # ?sv) = CHR '':'' # CHR '' '' # ?sv"
    by (simp add: skip_ws_def is_ws_def)
  have sk2: "skip_ws (CHR '' '' # ?sv) = ?sv"
    using skip_ws_scalar [OF assms(1), of ind rest] by (simp add: skip_ws_def is_ws_def)
  have pv: "parse_value ?sv = Some (Some v, rest)"
    by (rule parse_value_scalar [OF assms])
  have "parse_members (CHR 0x22 # tl (quote k) @ CHR '':'' # CHR '' '' # ?sv) =
     (case skip_ws rest of
        [] \<Rightarrow> None
      | e # r4 \<Rightarrow>
          if e = CHR ''}'' then Some (Some [(k, v)], r4)
          else if e = CHR '','' then
            (case parse_members (skip_ws r4) of
               None \<Rightarrow> None
             | Some (kvs, rest') \<Rightarrow> Some (cons_opt (Some (k, v)) kvs, rest'))
          else None)"
    by (subst parse_members.simps) (simp add: ps sk1 sk2 pv split: list.splits option.splits)
  moreover have "quote k @ X = CHR 0x22 # tl (quote k) @ X" for X
    by (simp add: quote_def)
  then have "quote k @ '': '' @ stringify ind v @ rest
      = CHR 0x22 # tl (quote k) @ CHR '':'' # CHR '' '' # ?sv"
    by (simp only: append_Cons append_Nil)
  ultimately show ?thesis by (simp only:)
qed


lemma join_Cons: "xs \<noteq> [] \<Longrightarrow> join sep (x # xs) = x @ sep @ join sep xs"
  by (cases xs) simp_all

lemma member_text_hd: "\<exists>cs. member_text kv = CHR 0x22 # cs"
  by (simp add: member_text_def quote_def)

lemma join_member_hd:
  assumes "kvs \<noteq> []"
  shows "\<exists>cs. join member_sep (map member_text kvs) = CHR 0x22 # cs"
proof -
  obtain kv rest where kvs: "kvs = kv # rest" using assms by (cases kvs) auto
  obtain cs where cs: "member_text kv = CHR 0x22 # cs" using member_text_hd by blast
  show ?thesis
  proof (cases rest)
    case Nil
    with kvs cs show ?thesis by simp
  next
    case (Cons a list)
    with kvs cs show ?thesis by simp
  qed
qed

lemma parse_members_join:
  assumes "kvs \<noteq> []" and "\<forall>kv \<in> set kvs. is_scalar (snd kv)"
  shows "parse_members (join member_sep (map member_text kvs) @ CHR 0x0A # CHR ''}'' # r) = Some (Some kvs, r)"
  using assms
proof (induction kvs rule: list_nonempty_induct)
  case (single kv)
  then have sc: "is_scalar (snd kv)" by simp
  have en: "ends_number (CHR 0x0A # CHR ''}'' # r)" by (simp add: ends_number_def is_digit_def)
  have "parse_members (quote (fst kv) @ '': '' @ stringify ''  '' (snd kv) @ CHR 0x0A # CHR ''}'' # r)
      = Some (Some [(fst kv, snd kv)], r)"
    by (subst parse_members_step [OF sc en]) (simp add: skip_ws_def is_ws_def)
  then show ?case by (simp add: member_text_def)
next
  case (cons kv kvs)
  then have sc: "is_scalar (snd kv)" and rest: "\<forall>kv \<in> set kvs. is_scalar (snd kv)" by simp_all
  let ?tail = "join member_sep (map member_text kvs) @ CHR 0x0A # CHR ''}'' # r"
  obtain cs where cs: "join member_sep (map member_text kvs) = CHR 0x22 # cs"
    using join_member_hd [OF cons.hyps] by blast
  have en: "ends_number (member_sep @ ?tail)" by (simp add: ends_number_def is_digit_def member_sep_def)
  have sk: "skip_ws (member_sep @ ?tail) = CHR '','' # CHR 0x0A # CHR '' '' # CHR '' '' # ?tail"
    by (simp add: skip_ws_def is_ws_def member_sep_def)
  have sk2: "skip_ws (CHR 0x0A # CHR '' '' # CHR '' '' # ?tail) = ?tail"
    by (simp add: skip_ws_def is_ws_def cs)
  have ih: "parse_members ?tail = Some (Some kvs, r)" using cons.IH [OF rest] .
  have "parse_members (quote (fst kv) @ '': '' @ stringify ''  '' (snd kv) @ member_sep @ ?tail)
      = Some (Some ((fst kv, snd kv) # kvs), r)"
    by (subst parse_members_step [OF sc en]) (simp add: sk sk2 ih)
  moreover have "join member_sep (map member_text (kv # kvs)) @ CHR 0x0A # CHR ''}'' # r
      = quote (fst kv) @ '': '' @ stringify ''  '' (snd kv) @ member_sep @ ?tail"
    using cons.hyps by (simp add: join_Cons member_text_def)
  ultimately show ?case by simp
qed

lemma stringify_object:
  "kvs \<noteq> [] \<Longrightarrow> stringify [] (JObj kvs)
     = CHR ''{'' # CHR 0x0A # CHR '' '' # CHR '' '' # join member_sep (map member_text kvs) @ [CHR 0x0A, CHR ''}'']"
proof -
  have "(\<lambda>(k, v). quote k @ '': '' @ stringify ''  '' v) = member_text"
    by (rule ext) (simp add: member_text_def split: prod.splits)
  then show "kvs \<noteq> [] \<Longrightarrow> ?thesis" by (simp add: member_sep_def)
qed

lemma parse_value_object:
  assumes "kvs \<noteq> []" and "\<forall>kv \<in> set kvs. is_scalar (snd kv)"
  shows "parse_value (stringify [] (JObj kvs))
     = Some (Some (object_of kvs), [])"
proof -
  obtain cs where cs: "join member_sep (map member_text kvs) = CHR 0x22 # cs"
    using join_member_hd [OF assms(1)] by blast
  have pm: "parse_members (join member_sep (map member_text kvs) @ [CHR 0x0A, CHR ''}'']) = Some (Some kvs, [])"
    using parse_members_join [OF assms, of "[]"] by simp
  have sk: "skip_ws (CHR 0x0A # CHR '' '' # CHR '' '' # join member_sep (map member_text kvs) @ [CHR 0x0A, CHR ''}''])
      = join member_sep (map member_text kvs) @ [CHR 0x0A, CHR ''}'']"
    by (simp add: skip_ws_def is_ws_def cs)
  have pm': "parse_members (CHR 0x22 # cs @ [CHR 0x0A, CHR ''}'']) = Some (Some kvs, [])"
    using pm by (simp add: cs)
  show ?thesis
    apply (subst stringify_object [OF assms(1)])
    apply (subst parse_value.simps)
    apply (simp add: sk)
    apply (simp add: cs pm')
    done
qed

lemma obj_insert_append:
  "array_index k = None \<Longrightarrow> obj_insert kvs k v = kvs @ [(k, v)]"
  by (induction kvs) (auto simp: goes_before_def)

lemma foldl_obj_put:
  "distinct (map fst (acc @ kvs)) \<Longrightarrow> \<forall>kv \<in> set kvs. array_index (fst kv) = None
   \<Longrightarrow> foldl (\<lambda>obj (k, v). obj_put obj k v) acc kvs = acc @ kvs"
proof (induction kvs arbitrary: acc)
  case Nil
  then show ?case by simp
next
  case (Cons kv kvs)
  obtain k v where kv: "kv = (k, v)" by (cases kv)
  from Cons.prems have "k \<notin> fst ` set acc" by (auto simp: kv)
  then have "map_of acc k = None" by (simp add: map_of_eq_None_iff)
  moreover have "array_index k = None" using Cons.prems by (simp add: kv)
  ultimately have put: "obj_put acc k v = acc @ [(k, v)]"
    by (simp add: obj_put_def obj_insert_append)
  have "foldl (\<lambda>obj (k, v). obj_put obj k v) (acc @ [(k, v)]) kvs = (acc @ [(k, v)]) @ kvs"
    using Cons.prems by (intro Cons.IH) (auto simp: kv)
  then show ?case by (simp add: kv put)
qed

lemma JSON_parse_object:
  assumes "\<forall>kv \<in> set kvs. is_scalar (snd kv) \<and> array_index (fst kv) = None"
    and "distinct (map fst kvs)"
  shows "JSON_parse (stringify [] (JObj kvs)) = Got (JObj kvs)"
proof (cases "kvs = []")
  case True
  then show ?thesis
    by (simp add: JSON_parse_def skip_ws_def is_ws_def) (simp add: parse_value.simps skip_ws_def is_ws_def)
next
  case False
  have sc: "\<forall>kv \<in> set kvs. is_scalar (snd kv)" using assms(1) by simp
  have "foldl (\<lambda>obj (k, v). obj_put obj k v) [] kvs = [] @ kvs"
    using assms by (intro foldl_obj_put) simp_all
  then have pv: "parse_value (stringify [] (JObj kvs)) = Some (Some (JObj kvs), [])"
    using parse_value_object [OF False sc] by (simp add: object_of_def)
  have "skip_ws (stringify [] (JObj kvs)) = stringify [] (JObj kvs)"
    by (subst (1 2) stringify_object [OF False]) (simp add: skip_ws_def is_ws_def)
  then show ?thesis using pv by (simp add: JSON_parse_def skip_ws_def)
qed


lemma collect_row_editable:
  assumes "editable_row r" and "map_of acc (fst (row_pair r)) = None"
    and "array_index (fst (row_pair r)) = None" and "fst (row_pair r) \<noteq> ''__proto__''"
  shows "collect_row acc r = acc @ [row_pair r]"
proof -
  from assms(1) obtain k where k: "row_key r = Some k" "k \<noteq> []"
    by (auto simp: editable_row_def has_key_def split: option.splits)
  then have rp: "row_pair r = (k, row_value r)" by (simp add: row_pair_def)
  with assms have "obj_put acc k (row_value r) = acc @ [(k, row_value r)]"
    by (simp add: obj_put_def obj_insert_append)
  with assms k rp show ?thesis
    by (simp add: collect_row_def assign_def editable_row_def)
qed

lemma collect_row_other: "\<not> editable_row r \<Longrightarrow> collect_row acc r = acc"
  by (auto simp: collect_row_def editable_row_def has_key_def split: option.splits)

lemma foldl_collect_row:
  "distinct (map fst acc @ map (fst \<circ> row_pair) (filter editable_row rows))
   \<Longrightarrow> \<forall>r \<in> set (filter editable_row rows).
         array_index (fst (row_pair r)) = None \<and> fst (row_pair r) \<noteq> ''__proto__''
   \<Longrightarrow> foldl collect_row acc rows = acc @ map row_pair (filter editable_row rows)"
proof (induction rows arbitrary: acc)
  case Nil
  then show ?case by simp
next
  case (Cons r rows)
  show ?case
  proof (cases "editable_row r")
    case True
    from Cons.prems(1) True have "fst (row_pair r) \<notin> fst ` set acc" by auto
    then have "map_of acc (fst (row_pair r)) = None" by (simp add: map_of_eq_None_iff)
    with True Cons.prems(2) have step: "collect_row acc r = acc @ [row_pair r]"
      by (intro collect_row_editable) simp_all
    have "foldl collect_row (acc @ [row_pair r]) rows
        = (acc @ [row_pair r]) @ map row_pair (filter editable_row rows)"
      using Cons.prems True by (intro Cons.IH) auto
    with True step show ?thesis by simp
  next
    case False
    with Cons show ?thesis by (simp add: collect_row_other)
  qed
qed

lemma JSON_parse_scalar:
  assumes "is_scalar v"
  shows "JSON_parse (stringify [] v) = Got v"
proof -
  have "ends_number []" by (simp add: ends_number_def)
  from parse_value_scalar [OF assms this, of "[]"] skip_ws_scalar [OF assms, of "[]" "[]"]
  show ?thesis by (simp add: JSON_parse_def skip_ws_def)
qed

section \<open>The claims about the normalizer\<close>

text \<open>
  C6, as the code has it. For a row list of one unkeyed row whose value is a number, a
  boolean or \<^verbatim>\<open>null\<close>, the output of the normalizer parses to that value.
\<close>

theorem normalizeNodeData_leaf:
  assumes "\<not> has_key r" and "is_scalar (row_value r)" and "\<not> is_str (row_value r)"
  shows "JSON_parse (normalizeNodeData [r]) = Got (row_value r)"
proof -
  have "to_string (row_value r) = stringify [] (row_value r)"
    using assms(2,3) by (cases "row_value r") simp_all
  then show ?thesis using assms(1) JSON_parse_scalar [OF assms(2)]
    by (simp add: normalizeNodeData_def del: stringify.simps)
qed

theorem normalizeNodeData_leaf_witness:
  "\<not> has_key \<lparr>row_key = None, row_value = JNum (- 42), row_type = ''number''\<rparr>
   \<and> JSON_parse (normalizeNodeData [\<lparr>row_key = None, row_value = JNum (- 42), row_type = ''number''\<rparr>])
       = Got (JNum (- 42))"
  using normalizeNodeData_leaf [of "\<lparr>row_key = None, row_value = JNum (- 42), row_type = ''number''\<rparr>"]
  by (simp add: has_key_def)

text \<open>
  C6 as stated fails for a string: the bare text \<open>hello\<close> of the value \<open>"hello"\<close> is not
  JSON.
\<close>

theorem normalizeNodeData_leaf_counterexample:
  "normalizeNodeData [\<lparr>row_key = None, row_value = JStr ''hello'', row_type = ''string''\<rparr>] = ''hello''
   \<and> JSON_parse (normalizeNodeData [\<lparr>row_key = None, row_value = JStr ''hello'', row_type = ''string''\<rparr>])
       = Bad"
  by (simp add: normalizeNodeData_def has_key_def JSON_parse_def skip_ws_def is_ws_def
      parse_value.simps parse_literal_def is_digit_def)

text \<open>
  C7, as the code has it. For a row list that is not a single unkeyed row, where the
  rows with a truthy key and a type other than \<^verbatim>\<open>array\<close> and \<^verbatim>\<open>object\<close> have scalar
  values and distinct keys, none of them an array index or \<^verbatim>\<open>__proto__\<close>, the output of
  the normalizer parses to the object of exactly those rows, as key and value, in the
  order of the rows; every other row is left out. The empty row list gives \<open>{}\<close>.
\<close>

theorem normalizeNodeData_object:
  assumes "\<not> (length rows = 1 \<and> \<not> has_key (rows ! 0))"
    and "distinct (map (fst \<circ> row_pair) (filter editable_row rows))"
    and "\<forall>r \<in> set (filter editable_row rows).
           is_scalar (row_value r) \<and> array_index (fst (row_pair r)) = None
           \<and> fst (row_pair r) \<noteq> ''__proto__''"
  shows "JSON_parse (normalizeNodeData rows) = Got (JObj (map row_pair (filter editable_row rows)))
     \<and> JSON_parse (normalizeNodeData []) = Got (JObj [])"
proof -
  let ?kvs = "map row_pair (filter editable_row rows)"
  have fold: "foldl collect_row [] rows = ?kvs"
    using foldl_collect_row [of "[]" rows] assms(2,3) by simp
  have sc: "\<forall>kv \<in> set ?kvs. is_scalar (snd kv) \<and> array_index (fst kv) = None"
    using assms(3) by (auto simp: row_pair_def split: option.splits)
  have di: "distinct (map fst ?kvs)" using assms(2) by simp
  have obj: "JSON_parse (stringify [] (JObj ?kvs)) = Got (JObj ?kvs)"
    by (rule JSON_parse_object [OF sc di])
  have empty: "JSON_parse ''{}'' = Got (JObj [])"
    using JSON_parse_object [of "[]"] by simp
  have "JSON_parse (normalizeNodeData rows) = Got (JObj ?kvs)"
  proof (cases "rows = []")
    case True
    with empty show ?thesis by (simp add: normalizeNodeData_def del: stringify.simps)
  next
    case False
    with assms(1) fold obj show ?thesis
      by (auto simp: normalizeNodeData_def simp del: stringify.simps)
  qed
  moreover have "JSON_parse (normalizeNodeData []) = Got (JObj [])"
    using empty by (simp add: normalizeNodeData_def del: stringify.simps)
  ultimately show ?thesis by simp
qed

lemmas row_eval = editable_row_def row_pair_def has_key_def array_index_def is_digit_def read_nat_def digit_val_def

theorem normalizeNodeData_object_witness:
  "filter editable_row rows_bcd =
     [\<lparr>row_key = Some ''b'', row_value = JNum 1, row_type = ''number''\<rparr>,
      \<lparr>row_key = Some ''c'', row_value = JStr ''x'', row_type = ''string''\<rparr>]
   \<and> JSON_parse (normalizeNodeData rows_bcd) = Got (JObj [(''b'', JNum 1), (''c'', JStr ''x'')])"
proof -
  have f: "filter editable_row rows_bcd =
     [\<lparr>row_key = Some ''b'', row_value = JNum 1, row_type = ''number''\<rparr>,
      \<lparr>row_key = Some ''c'', row_value = JStr ''x'', row_type = ''string''\<rparr>]"
    by (simp add: rows_bcd_def row_eval)
  have a: "\<not> (length rows_bcd = 1 \<and> \<not> has_key (rows_bcd ! 0))" by (simp add: rows_bcd_def)
  have b: "distinct (map (fst \<circ> row_pair) (filter editable_row rows_bcd))"
    by (simp add: f) (simp add: row_eval)
  have c: "\<forall>r \<in> set (filter editable_row rows_bcd).
           is_scalar (row_value r) \<and> array_index (fst (row_pair r)) = None
           \<and> fst (row_pair r) \<noteq> ''__proto__''"
    by (simp add: f) (simp add: row_eval)
  from normalizeNodeData_object [OF a b c] f show ?thesis by (simp add: row_pair_def)
qed

lemma normalize_aa: "normalizeNodeData rows_aa = stringify [] (JObj [(''a'', JNum 2)])"
  by (simp add: normalizeNodeData_def rows_aa_def collect_row_def assign_def obj_put_def del: stringify.simps)

lemma normalize_b1: "normalizeNodeData rows_b1 = stringify [] (JObj [(''1'', JNum 2), (''b'', JNum 1)])"
  by (simp add: normalizeNodeData_def rows_b1_def collect_row_def assign_def obj_put_def
      goes_before_def row_eval del: stringify.simps)

lemma parse_1b:
  "JSON_parse (stringify [] (JObj [(''1'', JNum 2), (''b'', JNum 1)]))
     = Got (JObj [(''1'', JNum 2), (''b'', JNum 1)])"
  by (simp add: JSON_parse_def skip_ws_def is_ws_def parse_value.simps parse_members.simps
      parse_number_def parse_digits_def number_rest_def parse_fraction_def parse_exponent_def
      object_of_def is_digit_def read_nat_def digit_val_def quote_def
      escape_char_def show_int_def show_nat.simps digit_char_def obj_put_def goes_before_def
      array_index_def)

text \<open>
  C7 as stated fails where two rows have the same key, the later value replacing the
  earlier one, and where a key is an array index, which JavaScript enumerates before
  the other keys: the rows \<open>b: 1\<close>, \<open>1: 2\<close> give the object \<open>{"1": 2, "b": 1}\<close>.
\<close>

theorem normalizeNodeData_object_counterexample:
  "map row_pair (filter editable_row rows_aa) = [(''a'', JNum 1), (''a'', JNum 2)]
   \<and> JSON_parse (normalizeNodeData rows_aa) = Got (JObj [(''a'', JNum 2)])
   \<and> map row_pair (filter editable_row rows_b1) = [(''b'', JNum 1), (''1'', JNum 2)]
   \<and> JSON_parse (normalizeNodeData rows_b1) = Got (JObj [(''1'', JNum 2), (''b'', JNum 1)])"
proof -
  have "JSON_parse (stringify [] (JObj [(''a'', JNum 2)])) = Got (JObj [(''a'', JNum 2)])"
    by (rule JSON_parse_object) (simp_all add: row_eval)
  then show ?thesis using parse_1b
    by (simp add: normalize_aa normalize_b1 del: stringify.simps)
       (simp add: rows_aa_def rows_b1_def row_eval)
qed

section \<open>The re-locator finds the node of a path\<close>

lemma seg_json_scalar: "is_scalar (seg_json s)"
  by (cases s) simp_all

lemma seg_json_inj: "seg_json s = seg_json t \<Longrightarrow> s = t"
  by (cases s; cases t) simp_all

lemma path_text_Cons:
  "join '','' (map (\<lambda>s. stringify [] (seg_json s)) (s # p)) @ '']''
     = stringify [] (seg_json s) @ path_tail_text p"
  by (cases p) (simp_all add: path_tail_text_def del: stringify.simps)

lemma ends_number_path_tail: "ends_number (path_tail_text p)"
  by (simp add: path_tail_text_def ends_number_def is_digit_def)

lemma parse_value_path_Cons:
  "parse_value (join '','' (map (\<lambda>s. stringify [] (seg_json s)) (s # p)) @ '']'')
     = Some (Some (seg_json s), path_tail_text p)"
  unfolding path_text_Cons
  by (rule parse_value_scalar [OF seg_json_scalar ends_number_path_tail])

lemma parse_value_bracket: "parse_value '']'' = None"
  by (simp add: parse_value.simps parse_literal_def is_digit_def)

lemma path_text_inj:
  "join '','' (map (\<lambda>s. stringify [] (seg_json s)) p) @ '']''
     = join '','' (map (\<lambda>s. stringify [] (seg_json s)) q) @ '']'' \<Longrightarrow> p = q"
proof (induction p arbitrary: q)
  case Nil
  show ?case
  proof (cases q)
    case (Cons t q')
    from Nil have "parse_value '']'' =
        parse_value (join '','' (map (\<lambda>s. stringify [] (seg_json s)) q) @ '']'')" by simp
    then show ?thesis unfolding Cons parse_value_path_Cons parse_value_bracket by simp
  qed simp
next
  case (Cons s p')
  show ?case
  proof (cases q)
    case Nil
    from Cons.prems have "parse_value (join '','' (map (\<lambda>s. stringify [] (seg_json s)) (s # p')) @ '']'')
        = parse_value '']''" by (simp add: Nil)
    then show ?thesis unfolding parse_value_path_Cons parse_value_bracket by simp
  next
    case (Cons t q')
    from Cons.prems have "parse_value (join '','' (map (\<lambda>s. stringify [] (seg_json s)) (s # p')) @ '']'')
        = parse_value (join '','' (map (\<lambda>s. stringify [] (seg_json s)) (t # q')) @ '']'')"
      by (simp only: Cons)
    then have st: "seg_json s = seg_json t" and tl: "path_tail_text p' = path_tail_text q'"
      unfolding parse_value_path_Cons by simp_all
    from tl have "join '','' (map (\<lambda>s. stringify [] (seg_json s)) p') @ '']''
        = join '','' (map (\<lambda>s. stringify [] (seg_json s)) q') @ '']''"
      by (cases "p' = []"; cases "q' = []") (simp_all add: path_tail_text_def del: stringify.simps)
    then have "p' = q'" by (rule Cons.IH)
    with st Cons show ?thesis by (simp add: seg_json_inj)
  qed
qed

lemma stringify_path_inj: "stringify_path p = stringify_path q \<longleftrightarrow> p = q"
  using path_text_inj [of p q] by (auto simp: stringify_path_def simp del: stringify.simps)

text \<open>
  C8. The text of a path determines the path, so the re-locator compares paths segment
  by segment, an absent path counting as the empty one. It returns a node of the
  collection whose path equals the target path, the first of them, whenever there is
  one, and nothing exactly when no node has that path.
\<close>

theorem relocate_finds:
  "(relocate ns target = Some n \<longrightarrow>
      n \<in> set ns \<and> path_or_empty (node_path n) = path_or_empty target)
   \<and> ((\<exists>m \<in> set ns. path_or_empty (node_path m) = path_or_empty target) \<longrightarrow>
        (\<exists>m. relocate ns target = Some m))
   \<and> (relocate ns target = None \<longleftrightarrow>
        (\<forall>m \<in> set ns. path_or_empty (node_path m) \<noteq> path_or_empty target))
   \<and> relocate ns target = find (\<lambda>m. path_or_empty (node_path m) = path_or_empty target) ns"
proof -
  have eq: "relocate ns target = find (\<lambda>m. path_or_empty (node_path m) = path_or_empty target) ns"
    by (simp add: relocate_def stringify_path_inj)
  let ?P = "\<lambda>m. path_or_empty (node_path m) = path_or_empty target"
  have some: "n \<in> set ns \<and> ?P n" if "find ?P ns = Some n"
    using that by (auto simp: find_Some_iff)
  have none: "find ?P ns = None \<longleftrightarrow> (\<forall>m \<in> set ns. \<not> ?P m)"
    by (auto simp: find_None_iff)
  have ex: "\<exists>m. find ?P ns = Some m" if "\<exists>m \<in> set ns. ?P m"
    using that none by (cases "find ?P ns") auto
  show ?thesis
    unfolding eq using some none ex by blast
qed

theorem relocate_finds_witness:
  "relocate [leaf_node (Some [Key ''a'']), object_node (Some [Key ''a'', Idx 0]), leaf_node (Some [Key ''a'', Idx 0])]
       (Some [Key ''a'', Idx 0])
     = Some (object_node (Some [Key ''a'', Idx 0]))
   \<and> relocate [leaf_node (Some [Key ''a'']), object_node (Some [Key ''a'', Idx 0])] (Some [Key ''b''])
     = None
   \<and> relocate [leaf_node None] (Some []) = Some (leaf_node None)"
  using relocate_finds [of "[leaf_node (Some [Key ''a'']), object_node (Some [Key ''a'', Idx 0]), leaf_node (Some [Key ''a'', Idx 0])]"
       "Some [Key ''a'', Idx 0]" "object_node (Some [Key ''a'', Idx 0])"]
    relocate_finds [of "[leaf_node (Some [Key ''a'']), object_node (Some [Key ''a'', Idx 0])]" "Some [Key ''b'']"]
    relocate_finds [of "[leaf_node None]" "Some []"]
  by (simp add: path_or_empty_def leaf_node_def object_node_def)

section \<open>The claims about the save handler\<close>

lemma parse_bad: "JSON_parse ''{bad'' = Bad"
  by (simp add: JSON_parse_def skip_ws_def is_ws_def parse_value.simps parse_members.simps)

lemma parse_oops: "JSON_parse ''oops'' = Bad"
  by (simp add: JSON_parse_def skip_ws_def is_ws_def parse_value.simps parse_literal_def is_digit_def)

lemma parse_null: "JSON_parse ''null'' = Got JNull"
  by (simp add: JSON_parse_def skip_ws_def is_ws_def parse_value.simps parse_literal_def is_digit_def)

lemma parse_7: "JSON_parse ''7'' = Got (JNum 7)"
  by (simp add: JSON_parse_def skip_ws_def is_ws_def parse_value.simps parse_number_def
      parse_digits_def number_rest_def parse_fraction_def parse_exponent_def
      is_digit_def read_nat_def digit_val_def)

lemma parse_empty_object: "JSON_parse ''{}'' = Got (JObj [])"
  by (simp add: JSON_parse_def skip_ws_def is_ws_def parse_value.simps)

text \<open>
  Texts with a fraction, an exponent or an escape above \<open>0xFF\<close> are read as JSON, and
  their values are outside the model; a number that stops after the point or after the
  \<open>e\<close> is not JSON.
\<close>

lemma parse_beyond:
  "JSON_parse ''1.5'' = Beyond" "JSON_parse ''1e2'' = Beyond" "JSON_parse ''-0.5E+3'' = Beyond"
  "JSON_parse [CHR 0x22, CHR 0x5C, CHR ''u'', CHR ''2'', CHR ''0'', CHR ''a'', CHR ''c'', CHR 0x22] = Beyond"
  "JSON_parse ''[1, 2.0]'' = Beyond"
  "JSON_parse ''1.'' = Bad" "JSON_parse ''1e'' = Bad" "JSON_parse ''01'' = Bad" "JSON_parse ''-'' = Bad"
  by (simp_all add: JSON_parse_def skip_ws_def is_ws_def parse_value.simps parse_elements.simps
      parse_number_def parse_digits_def number_rest_def parse_fraction_def parse_exponent_def
      is_digit_def is_hex_def hex_val_def escaped_char_def cons_opt_def read_nat_def digit_val_def)

text \<open>
  C1. When the edited text does not parse as JSON, the save reports the one error of
  the parser and changes nothing else: the stored text, the nodes, the selection and
  the draft are as before, and the editing mode stays.
\<close>

theorem handleSave_invalid_draft:
  assumes "JSON_parse (draft st) = Bad"
  shows "handleSave rebuild st = Some (st\<lparr>error := Some SyntaxError\<rparr>)
     \<and> json (the (handleSave rebuild st)) = json st
     \<and> nodes (the (handleSave rebuild st)) = nodes st
     \<and> selectedNode (the (handleSave rebuild st)) = selectedNode st
     \<and> editing (the (handleSave rebuild st)) = editing st
     \<and> draft (the (handleSave rebuild st)) = draft st"
  using assms by (simp add: handleSave_def)

theorem handleSave_invalid_draft_witness:
  "JSON_parse (draft (editing_state ''7'' ''{bad'' (Some (leaf_node (Some []))))) = Bad
   \<and> handleSave (\<lambda>text. []) (editing_state ''7'' ''{bad'' (Some (leaf_node (Some []))))
       = Some ((editing_state ''7'' ''{bad'' (Some (leaf_node (Some []))))\<lparr>error := Some SyntaxError\<rparr>)
   \<and> json (the (handleSave (\<lambda>text. []) (editing_state ''7'' ''{bad'' (Some (leaf_node (Some [])))))) = ''7''"
proof -
  have p: "JSON_parse (draft (editing_state ''7'' ''{bad'' (Some (leaf_node (Some []))))) = Bad"
    by (simp add: editing_state_def parse_bad)
  from handleSave_invalid_draft [OF p, of "\<lambda>text. []"] p show ?thesis
    by (simp add: editing_state_def)
qed

text \<open>
  A draft that is JSON is not reported as invalid: the save goes on to the stored text,
  here with the root selected, and stores the edited value.
\<close>

lemma handleSave_valid_draft:
  "handleSave (\<lambda>text. []) (editing_state ''7'' ''null'' (Some (leaf_node (Some []))))
     = Some \<lparr>json = ''null'', nodes = [], selectedNode = Some (leaf_node (Some [])),
             editing = False, draft = ''null'', error = None\<rparr>"
  by (simp add: handleSave_def editing_state_def parse_null parse_7 own_path_def path_or_empty_def
      commit_def setJson_def relocate_def mutate_def setValueAtPath_def singular_def has_key_def
      leaf_node_def)

section \<open>The store: a document read back, and a save without a path\<close>

lemma obj_update_same: "map_of kvs k = Some v \<Longrightarrow> obj_update kvs k v = kvs"
  by (induction kvs) (auto split: if_splits)

lemma digits_not_length: "list_all is_digit k \<Longrightarrow> k \<noteq> ''length''"
  by (auto simp: is_digit_def)

lemma collect_Inr: "collect (map Inr xs) = Inr xs"
  by (induction xs) simp_all

lemma alloc_read_back:
  "alloc p h0 = (r, h) \<Longrightarrow>
     (\<exists>ext. h = h0 @ ext) \<and> length h = length h0 + count p
     \<and> (\<forall>e n. count p \<le> n \<longrightarrow> read_back n (h @ e) r = Inr p)"
  "alloc_list xs h0 = (vs, h) \<Longrightarrow>
     (\<exists>ext. h = h0 @ ext) \<and> length h = length h0 + count_list xs
     \<and> (\<forall>e n. count_list xs \<le> n \<longrightarrow> map (read_back n (h @ e)) vs = map Inr xs)"
  "alloc_fields kvs h0 = (fs, h) \<Longrightarrow>
     (\<exists>ext. h = h0 @ ext) \<and> length h = length h0 + count_fields kvs
     \<and> (\<forall>e n. count_fields kvs \<le> n \<longrightarrow> map (field_back n (h @ e)) fs = map Inr kvs)"
proof (induction p h0 and xs h0 and kvs h0 arbitrary: r h and vs h and fs h
    rule: alloc_alloc_list_alloc_fields.induct)
  case (1 xs h0)
  obtain vs h1 where a: "alloc_list xs h0 = (vs, h1)" by (cases "alloc_list xs h0")
  with 1(2) have r: "r = HRef (length h1)" and h: "h = h1 @ [HArr vs]" by simp_all
  from 1(1) [OF a] obtain ext where ext: "h1 = h0 @ ext" and len: "length h1 = length h0 + count_list xs"
    and rb: "\<And>e n. count_list xs \<le> n \<Longrightarrow> map (read_back n (h1 @ e)) vs = map Inr xs"
    by blast
  have "read_back n (h @ e) r = Inr (JArr xs)" if "count (JArr xs) \<le> n" for e n
  proof -
    from that obtain m where n: "n = Suc m" and m: "count_list xs \<le> m" by (cases n) auto
    have "map (read_back m (h @ e)) vs = map Inr xs"
      using rb [OF m, of "[HArr vs] @ e"] by (simp add: h)
    then show ?thesis by (simp add: n r h nth_append collect_Inr)
  qed
  then show ?case using ext len by (simp add: h)
next
  case (2 kvs h0)
  obtain fs h1 where a: "alloc_fields kvs h0 = (fs, h1)" by (cases "alloc_fields kvs h0")
  with 2(2) have r: "r = HRef (length h1)" and h: "h = h1 @ [HObj fs]" by simp_all
  from 2(1) [OF a] obtain ext where ext: "h1 = h0 @ ext" and len: "length h1 = length h0 + count_fields kvs"
    and rb: "\<And>e n. count_fields kvs \<le> n \<Longrightarrow> map (field_back n (h1 @ e)) fs = map Inr kvs"
    by blast
  have "read_back n (h @ e) r = Inr (JObj kvs)" if "count (JObj kvs) \<le> n" for e n
  proof -
    from that obtain m where n: "n = Suc m" and m: "count_fields kvs \<le> m" by (cases n) auto
    have "map (field_back m (h @ e)) fs = map Inr kvs"
      using rb [OF m, of "[HObj fs] @ e"] by (simp add: h)
    then have "map (\<lambda>f. case read_back m (h @ e) (snd f) of Inl e \<Rightarrow> Inl e | Inr x \<Rightarrow> Inr (fst f, x)) fs
        = map Inr kvs"
      by (simp add: field_back_def [abs_def])
    then show ?thesis by (simp add: n r h nth_append collect_Inr)
  qed
  then show ?case using ext len by (simp add: h)
next
  case (8 x xs h0)
  obtain v h1 where a: "alloc x h0 = (v, h1)" by (cases "alloc x h0")
  obtain vs' h2 where b: "alloc_list xs h1 = (vs', h2)" by (cases "alloc_list xs h1")
  from 8(3) a b have vs: "vs = v # vs'" and h: "h = h2" by simp_all
  from 8(1) [OF a] obtain e1 where e1: "h1 = h0 @ e1" and l1: "length h1 = length h0 + count x"
    and r1: "\<And>e n. count x \<le> n \<Longrightarrow> read_back n (h1 @ e) v = Inr x" by blast
  from 8(2) [OF a [symmetric] b] obtain e2 where e2: "h2 = h1 @ e2"
    and l2: "length h2 = length h1 + count_list xs"
    and r2: "\<And>e n. count_list xs \<le> n \<Longrightarrow> map (read_back n (h2 @ e)) vs' = map Inr xs" by blast
  have "map (read_back n (h @ e)) vs = map Inr (x # xs)" if "count_list (x # xs) \<le> n" for e n
  proof -
    from that have cx: "count x \<le> n" and cxs: "count_list xs \<le> n" by simp_all
    have "read_back n (h2 @ e) v = Inr x" using r1 [OF cx, of "e2 @ e"] by (simp add: e2)
    with r2 [OF cxs, of e] show ?thesis by (simp add: vs h)
  qed
  then show ?case using e1 e2 l1 l2 by (simp add: h)
next
  case (10 kv kvs h0)
  obtain v h1 where a: "alloc (snd kv) h0 = (v, h1)" by (cases "alloc (snd kv) h0")
  obtain fs' h2 where b: "alloc_fields kvs h1 = (fs', h2)" by (cases "alloc_fields kvs h1")
  from 10(3) a b have fs: "fs = (fst kv, v) # fs'" and h: "h = h2" by simp_all
  from 10(1) [OF a] obtain e1 where e1: "h1 = h0 @ e1" and l1: "length h1 = length h0 + count (snd kv)"
    and r1: "\<And>e n. count (snd kv) \<le> n \<Longrightarrow> read_back n (h1 @ e) v = Inr (snd kv)" by blast
  from 10(2) [OF a [symmetric] b] obtain e2 where e2: "h2 = h1 @ e2"
    and l2: "length h2 = length h1 + count_fields kvs"
    and r2: "\<And>e n. count_fields kvs \<le> n \<Longrightarrow> map (field_back n (h2 @ e)) fs' = map Inr kvs" by blast
  have "map (field_back n (h @ e)) fs = map Inr (kv # kvs)" if "count_fields (kv # kvs) \<le> n" for e n
  proof -
    from that have cx: "count (snd kv) \<le> n" and cxs: "count_fields kvs \<le> n" by simp_all
    have "read_back n (h2 @ e) v = Inr (snd kv)" using r1 [OF cx, of "e2 @ e"] by (simp add: e2)
    with r2 [OF cxs, of e] show ?thesis by (simp add: fs h field_back_def)
  qed
  then show ?case using e1 e2 l1 l2 by (simp add: h)
qed simp_all

lemma read_back_alloc: "alloc p [] = (r, h) \<Longrightarrow> read_back (length h) h r = Inr p"
  using alloc_read_back(1) [of p "[]" r h] by (metis append_Nil2 le_refl list.size(3) add_0)

lemma hput_self:
  assumes "hget h (HRef a) k = Some v"
    and "case h ! a of HArr vs \<Rightarrow> list_all is_digit k | HObj fs \<Rightarrow> True"
  shows "hput h (HRef a) k v = Inr h"
proof -
  from assms(1) have a: "a < length h" by (auto split: if_splits)
  show ?thesis
  proof (cases "h ! a")
    case (HObj fs)
    with assms(1) a have m: "map_of fs k = Some v" by simp
    then have "obj_put fs k v = fs" by (simp add: obj_put_def obj_update_same)
    with HObj a m show ?thesis by (simp add: list_update_same_conv)
  next
    case (HArr vs)
    with assms(2) have "k \<noteq> ''length''" by (simp add: digits_not_length)
    with HArr a assms(1) obtain i where i: "array_index k = Some i" "i < length vs" "v = vs ! i"
      by (auto split: option.splits if_splits)
    then have "harr_put vs i v = vs" by (simp add: harr_put_def)
    with HArr a i show ?thesis by (simp add: list_update_same_conv)
  qed
qed

lemma merge_keys_h_self:
  assumes "case h ! a of HArr vs \<Rightarrow> \<forall>k \<in> set ks. list_all is_digit k | HObj fs \<Rightarrow> True"
  shows "merge_keys_h h (HRef a) (HRef a) ks = Inr h"
  using assms
proof (induction ks)
  case Nil
  then show ?case by simp
next
  case (Cons k ks)
  then have ih: "merge_keys_h h (HRef a) (HRef a) ks = Inr h"
    by (cases "h ! a") simp_all
  show ?case
  proof (cases "hget h (HRef a) k")
    case None
    with ih show ?thesis by simp
  next
    case (Some v)
    have "case h ! a of HArr vs \<Rightarrow> list_all is_digit k | HObj fs \<Rightarrow> True"
      using Cons.prems by (cases "h ! a") simp_all
    from hput_self [OF Some this] Some ih show ?thesis by simp
  qed
qed

lemma merge_at_path_h_self:
  "merge_at_path_h h r [] r = Inr (r, h)"
proof (cases r)
  case (HPrim p)
  then show ?thesis by (simp add: merge_at_path_h_def setValueAtPath_h_def)
next
  case (HRef a)
  show ?thesis
  proof (cases "a < length h")
    case False
    with HRef show ?thesis
      by (simp add: merge_at_path_h_def setValueAtPath_h_def own_keys_h_def)
  next
    case True
    obtain ks where ks: "own_keys_h h (HRef a) = Inr ks"
      and dg: "case h ! a of HArr vs \<Rightarrow> \<forall>k \<in> set ks. list_all is_digit k | HObj fs \<Rightarrow> True"
      using True by (cases "h ! a") (auto simp: own_keys_h_def show_nat_digits)
    from merge_keys_h_self [OF dg] ks HRef show ?thesis
      by (simp add: merge_at_path_h_def setValueAtPath_h_def)
  qed
qed

lemma mutate_shared_no_path:
  assumes "no_path nd"
  shows "mutate_shared p nd = Inr p"
proof -
  obtain r h where a: "alloc p [] = (r, h)" by (cases "alloc p []")
  have rb: "serialised (Inr (r, h)) = Inr p"
    using read_back_alloc [OF a] by (simp add: serialised_def)
  show ?thesis
  proof (cases nd)
    case None
    with a rb show ?thesis by (simp add: mutate_shared_def)
  next
    case (Some n)
    with assms have np: "node_path n = None \<or> node_path n = Some []"
      by (auto simp: no_path_def path_or_empty_def split: option.splits)
    then show ?thesis
      using a rb Some by (auto simp: mutate_shared_def setValueAtPath_h_def merge_at_path_h_self)
  qed
qed

lemma alloc_scalar: "\<not> is_object (Some p) \<Longrightarrow> alloc p h = (HPrim p, h)"
  by (cases p) simp_all

lemma set_in_h_prim:
  assumes "path \<noteq> []"
  shows "set_in_h h (HPrim p) path v = Inl TypeError"
proof (cases path)
  case Nil
  with assms show ?thesis by simp
next
  case (Cons seg rest)
  show ?thesis
  proof (cases rest)
    case Nil
    with Cons show ?thesis by (simp add: set_in_h.simps)
  next
    case (Cons s' rest')
    have "hkeeps h seg (Some (HPrim c)) = False" for c by (cases seg) simp_all
    then show ?thesis unfolding \<open>path = seg # rest\<close> Cons
      by (auto simp: set_in_h.simps split: option.splits)
  qed
qed

lemma mutate_shared_scalar:
  assumes "\<not> no_path (Some n)" and "singular n" and "\<not> is_object (Some p)"
  shows "mutate_shared p (Some n) = Inl TypeError"
proof -
  from assms(1) obtain path where path: "node_path n = Some path" "path \<noteq> []"
    by (auto simp: no_path_def path_or_empty_def split: option.splits)
  show ?thesis
    using assms path
    by (simp add: mutate_shared_def alloc_scalar setValueAtPath_h_def set_in_h_prim serialised_def)
qed

text \<open>
  With the edited value as the document, the edit of a single unkeyed row at a path
  never stores anything. A scalar or \<^verbatim>\<open>null\<close> has no property to assign; an object or an
  array is assigned into itself, and \<^verbatim>\<open>JSON.stringify\<close> raises on the cycle.
\<close>

lemma mutate_shared_cycle:
  "mutate_shared (JObj []) (Some (leaf_node (Some [Key ''a'']))) = Inl TypeError"
  by (simp add: mutate_shared_def leaf_node_def singular_def has_key_def
      setValueAtPath_h_def set_in_h.simps serialised_def obj_put_def)

text \<open>Assigning an object as its own \<^verbatim>\<open>__proto__\<close> raises on the store.\<close>

lemma hput_cyclic_proto: "hput [HObj []] (HRef 0) ''__proto__'' (HRef 0) = Inl TypeError"
  by simp

text \<open>
  When the stored text does not parse and there is no path, the save stores the text of
  the edited value.
\<close>

lemma handleSave_invalid_stored_no_path:
  assumes "JSON_parse (draft st) = Got parsed" and "JSON_parse (json st) = Bad"
    and "no_path (selectedNode st)"
  shows "\<exists>st'. handleSave rebuild st = Some st' \<and> json st' = stringify [] parsed
     \<and> error st' = None \<and> editing st' = False"
proof -
  have own: "own_path (selectedNode st)"
    using assms(3) by (auto simp: own_path_def no_path_def split: option.splits)
  have "mutate_shared parsed (selectedNode st) = Inr parsed"
    by (rule mutate_shared_no_path [OF assms(3)])
  then show ?thesis using assms(1,2) own
    by (simp add: handleSave_def commit_def setJson_def Let_def split: option.splits
        del: stringify.simps)
qed

section \<open>The claim about a stored text that does not parse\<close>

text \<open>
  C10. The source says of a stored text that does not parse: replace entire (line 91).
  The code takes the edited value as the document and then edits that document at the
  path of the node. With the stored text \<open>oops\<close>, the edited text \<open>null\<close> and a single
  unkeyed row at the path \<open>["a"]\<close>, both texts are read as the claim supposes, the
  assignment to a property of \<^verbatim>\<open>null\<close> raises a \<^verbatim>\<open>TypeError\<close>, the error is shown, and the
  stored text is still \<open>oops\<close>: an error is raised and nothing is replaced. With the
  edited text \<open>{}\<close> the object is assigned into itself, the serialisation raises, and
  the outcome is the same.
\<close>

theorem handleSave_invalid_stored_not_replaced:
  "JSON_parse ''null'' = Got JNull \<and> JSON_parse ''{}'' = Got (JObj []) \<and> JSON_parse ''oops'' = Bad
   \<and> handleSave rebuild (editing_state ''oops'' ''null'' (Some (leaf_node (Some [Key ''a'']))))
       = Some \<lparr>json = ''oops'', nodes = [], selectedNode = Some (leaf_node (Some [Key ''a''])),
               editing = True, draft = ''null'', error = Some TypeError\<rparr>
   \<and> handleSave rebuild (editing_state ''oops'' ''{}'' (Some (leaf_node (Some [Key ''a'']))))
       = Some \<lparr>json = ''oops'', nodes = [], selectedNode = Some (leaf_node (Some [Key ''a''])),
               editing = True, draft = ''{}'', error = Some TypeError\<rparr>"
proof -
  have own: "own_path (Some (leaf_node (Some [Key ''a''])))"
    by (simp add: own_path_def path_or_empty_def leaf_node_def prototype_keys_def)
  have a: "mutate_shared JNull (Some (leaf_node (Some [Key ''a'']))) = Inl TypeError"
    by (rule mutate_shared_scalar)
       (simp_all add: no_path_def path_or_empty_def leaf_node_def singular_def has_key_def)
  have b: "mutate_shared (JObj []) (Some (leaf_node (Some [Key ''a'']))) = Inl TypeError"
    by (simp add: mutate_shared_def leaf_node_def singular_def has_key_def
        setValueAtPath_h_def set_in_h.simps serialised_def obj_put_def)
  show ?thesis
    by (simp add: parse_null parse_oops parse_empty_object handleSave_def editing_state_def
        commit_def own a b)
qed

end
